theory Spec2Isabelle
  imports Complex_Main "HOL-Library.Word" "HOL-Library.AList"
begin

section \<open>JavaScript runtime primitives used by the engine\<close>

text \<open>
  Numbers are modelled as real numbers: the arithmetic of the embedding generator
  (\<open>Math.log\<close>, \<open>Math.sqrt\<close>, division) is read exactly, without rounding, and the
  special values NaN and the infinities have no counterpart.  Strings are lists of
  characters; the case mapping and the character classes \<open>\w\<close> and \<open>\s\<close> are those
  of ASCII text.  A JavaScript \<open>Map\<close> is an association list in insertion order whose
  keys are distinct: \<open>Map.set\<close> is \<^const>\<open>AList.update\<close> (overwrite in place, or append),
  \<open>Map.get\<close> is \<^const>\<open>map_of\<close>, \<open>Map.delete\<close> is \<^const>\<open>AList.delete\<close>.
\<close>

definition toLowerCase_char :: "char \<Rightarrow> char" where
  "toLowerCase_char c =
     (let n = (of_char c :: nat) in if 65 \<le> n \<and> n \<le> 90 then char_of (n + 32) else c)"

definition toLowerCase :: "string \<Rightarrow> string" where
  "toLowerCase s = map toLowerCase_char s"

fun startsWith :: "string \<Rightarrow> string \<Rightarrow> bool" where
  "startsWith s [] = True"
| "startsWith [] (p # ps) = False"
| "startsWith (c # cs) (p # ps) = (c = p \<and> startsWith cs ps)"

text \<open>\<open>s.includes(p)\<close>: \<open>p\<close> occurs in \<open>s\<close> as a contiguous substring.\<close>

fun str_includes :: "string \<Rightarrow> string \<Rightarrow> bool" where
  "str_includes [] p = (p = [])"
| "str_includes (c # cs) p = (startsWith (c # cs) p \<or> str_includes cs p)"

text \<open>The regular-expression classes \<open>\w\<close> = \<open>[A-Za-z0-9_]\<close> and \<open>\s\<close>.\<close>

definition is_word_char :: "char \<Rightarrow> bool" where
  "is_word_char c =
     (let n = (of_char c :: nat) in
        (65 \<le> n \<and> n \<le> 90) \<or> (97 \<le> n \<and> n \<le> 122) \<or> (48 \<le> n \<and> n \<le> 57) \<or> n = 95)"

definition is_space_char :: "char \<Rightarrow> bool" where
  "is_space_char c = (let n = (of_char c :: nat) in (9 \<le> n \<and> n \<le> 13) \<or> n = 32)"

text \<open>
  \<open>s.split(sep)\<close> for a separator class: the pieces between separator characters.
  Splitting at every single separator gives, next to the pieces of \<open>split(/\s+/)\<close>,
  only additional empty pieces, and the tokenizer filters empty pieces out.
\<close>

fun split_at :: "(char \<Rightarrow> bool) \<Rightarrow> string \<Rightarrow> string \<Rightarrow> string list" where
  "split_at sep piece [] = [rev piece]"
| "split_at sep piece (c # cs) =
     (if sep c then rev piece # split_at sep [] cs else split_at sep (c # piece) cs)"

text \<open>
  \<open>path.basename\<close> (POSIX flavour): trailing slashes are dropped, then the part after
  the last slash is taken.
\<close>

definition basename :: "string \<Rightarrow> string" where
  "basename p =
     (let trimmed = rev (dropWhile (\<lambda>c. c = CHR ''/'') (rev p))
      in rev (takeWhile (\<lambda>c. c \<noteq> CHR ''/'') (rev trimmed)))"

text \<open>
  A write \<open>vector[i] = x\<close> into a JavaScript array: in range it overwrites the slot,
  beyond the end it extends the array.  (Every write of the generator is in range,
  see \<open>length_textToVector\<close> below; the holes an extension would leave are filled
  with \<open>0\<close> here.)
\<close>

definition array_set :: "real list \<Rightarrow> nat \<Rightarrow> real \<Rightarrow> real list" where
  "array_set v i x = (if i < length v then v[i := x] else v @ replicate (i - length v) 0 @ [x])"

text \<open>
  A plain object used as a dictionary, as in \<open>typeWeights[chunk.type]\<close> and
  \<open>stats.chunksByType[type]\<close>.  Reading \<open>obj[key]\<close> finds the object's own property
  and otherwise the property of that name which every plain object inherits from
  \<open>Object.prototype\<close>: eleven functions, and the accessor \<open>__proto__\<close>, which yields
  \<open>Object.prototype\<close> itself.  A value is a number, a string or an object (functions
  included); the strings that arise here are never empty and never numerals.
\<close>

datatype 'n js_value = NumberValue 'n | StringValue | ObjectValue

definition object_prototype_keys :: "string list" where
  "object_prototype_keys =
     [''constructor'', ''__defineGetter__'', ''__defineSetter__'', ''hasOwnProperty'',
      ''__lookupGetter__'', ''__lookupSetter__'', ''isPrototypeOf'', ''propertyIsEnumerable'',
      ''toString'', ''valueOf'', ''__proto__'', ''toLocaleString'']"

definition get_property :: "(string \<times> 'n js_value) list \<Rightarrow> string \<Rightarrow> 'n js_value option" where
  "get_property obj key =
     (case map_of obj key of
        Some v \<Rightarrow> Some v
      | None \<Rightarrow> if key \<in> set object_prototype_keys then Some ObjectValue else None)"

text \<open>
  \<open>obj[key] = v\<close> for a number or a string \<open>v\<close>, on an object whose own properties
  were all created by such assignments: the own property is created or overwritten,
  except under the key \<open>__proto__\<close>, where the inherited setter is called, which
  ignores a value that is neither an object nor \<open>null\<close>.
\<close>

definition set_property :: "string \<Rightarrow> 'n js_value \<Rightarrow> (string \<times> 'n js_value) list \<Rightarrow> (string \<times> 'n js_value) list" where
  "set_property key v obj = (if key = ''__proto__'' then obj else AList.update key v obj)"

text \<open>
  \<open>v || d\<close> for a number \<open>d\<close>, and \<open>v + x\<close> for a number \<open>x\<close>: numbers are added; a
  string or an object is converted to a string and the numeral is appended to it.
\<close>

definition or_else :: "'n::zero js_value option \<Rightarrow> 'n js_value \<Rightarrow> 'n js_value" where
  "or_else v d =
     (case v of
        None \<Rightarrow> d
      | Some (NumberValue n) \<Rightarrow> if n = 0 then d else NumberValue n
      | Some w \<Rightarrow> w)"

definition plus_number :: "'n::plus js_value \<Rightarrow> 'n \<Rightarrow> 'n js_value" where
  "plus_number v x = (case v of NumberValue n \<Rightarrow> NumberValue (n + x) | _ \<Rightarrow> StringValue)"


section \<open>Embedding generator (src/vectorstore/embeddings.ts)\<close>

record EmbeddingGenerator =
  vocabulary :: "(string \<times> nat) list"
  idfScores :: "(string \<times> real) list"
  documents :: "string list"

definition dimension :: nat where
  "dimension = 384"

definition new_EmbeddingGenerator :: EmbeddingGenerator where
  "new_EmbeddingGenerator = \<lparr>vocabulary = [], idfScores = [], documents = []\<rparr>"

definition tokenize :: "string \<Rightarrow> string list" where
  "tokenize text =
     (let replaced = map (\<lambda>c. if is_word_char c \<or> is_space_char c then c else CHR '' '')
                         (toLowerCase text);
          words = filter (\<lambda>token. length token > 0) (split_at is_space_char [] replaced)
      in words @ map2 (\<lambda>a b. a @ ''_'' @ b) words (tl words))"

definition computeTF :: "string list \<Rightarrow> (string \<times> real) list" where
  "computeTF tokens =
     (let tf = fold (\<lambda>token tf. AList.update token
                       ((case map_of tf token of None \<Rightarrow> 0 | Some c \<Rightarrow> c) + 1) tf)
                    tokens ([] :: (string \<times> nat) list)
      in map (\<lambda>(token, count). (token, real count / real (length tokens))) tf)"

definition updateVocabulary :: "(string \<times> nat) list \<Rightarrow> string list \<Rightarrow> (string \<times> nat) list" where
  "updateVocabulary vocab tokens =
     fold (\<lambda>token v. if map_of v token = None then v @ [(token, length v)] else v) tokens vocab"

definition documentCount :: "string list \<Rightarrow> string \<Rightarrow> nat" where
  "documentCount docs token = length (filter (\<lambda>doc. str_includes (toLowerCase doc) token) docs)"

definition computeIDF :: "(string \<times> nat) list \<Rightarrow> string list \<Rightarrow> (string \<times> real) list" where
  "computeIDF vocab docs =
     (let N = (if length docs = 0 then 1 else length docs)
      in List.map_filter
           (\<lambda>(token, _). let c = documentCount docs token
                          in if c > 0 then Some (token, ln (real N / real c)) else None)
           vocab)"

text \<open>
  \<open>simpleHash\<close>: \<open>hash = ((hash << 5) - hash) + char; hash = hash & hash\<close> keeps the
  low 32 bits after every step, so the loop is arithmetic on 32-bit words and the
  result is read as a signed integer.
\<close>

definition simpleHash :: "string \<Rightarrow> int" where
  "simpleHash str =
     sint (fold (\<lambda>c (hash :: 32 word). (push_bit 5 hash - hash) + of_nat (of_char c)) str 0)"

text \<open>
  \<open>Math.abs(simpleHash(token) % dimension)\<close>: the remainder of JavaScript takes the
  sign of the dividend, so its absolute value is the remainder of the absolute value.
\<close>

definition hashedIndex :: "string \<Rightarrow> nat" where
  "hashedIndex token = nat (\<bar>simpleHash token\<bar> mod int dimension)"

definition keyword_features :: "(string list \<times> nat) list" where
  "keyword_features =
     [([''function'', ''def'', ''func'', ''method''], 300),
      ([''class'', ''struct'', ''interface''], 301),
      ([''import'', ''require'', ''include'', ''from''], 302),
      ([''export'', ''module.exports'', ''public''], 303),
      ([''async'', ''await'', ''promise'', ''then''], 304),
      ([''return'', ''yield''], 305),
      ([''if'', ''else'', ''switch'', ''case''], 306),
      ([''for'', ''while'', ''foreach'', ''map''], 307),
      ([''try'', ''catch'', ''throw'', ''error''], 308),
      ([''const'', ''let'', ''var'', ''val''], 309),
      ([''new'', ''constructor'', ''init''], 310),
      ([''get'', ''set'', ''getter'', ''setter''], 311),
      ([''api'', ''endpoint'', ''route'', ''rest''], 312),
      ([''test'', ''spec'', ''describe'', ''it'', ''expect''], 313),
      ([''database'', ''query'', ''sql'', ''select''], 314)]"

text \<open>
  \<open>text.match(pattern)\<close> with a global pattern returns \<open>null\<close> (\<open>None\<close>) when nothing
  matches and the list of non-overlapping matches otherwise; only its length is used.
  A greedy pattern \<open>open [\s\S]* close\<close> matches once, from the first \<open>open\<close> to the
  last \<open>close\<close> after it, and nothing is left to match behind that.
\<close>

definition match_span :: "char \<Rightarrow> char \<Rightarrow> string \<Rightarrow> nat option" where
  "match_span opn cls text =
     (if cls \<in> set (tl (dropWhile (\<lambda>c. c \<noteq> opn) text)) then Some 1 else None)"

fun count_pair :: "char \<Rightarrow> char \<Rightarrow> string \<Rightarrow> nat" where
  "count_pair a b (x # y # zs) =
     (if x = a \<and> y = b then Suc (count_pair a b zs) else count_pair a b (y # zs))"
| "count_pair a b zs = 0"

definition match_count :: "nat \<Rightarrow> nat option" where
  "match_count n = (if n = 0 then None else Some n)"

definition structureFeatures :: "string \<Rightarrow> (nat option \<times> nat) list" where
  "structureFeatures text =
     [(match_span (CHR ''{'') (CHR ''}'') text, 320),
      (match_span (CHR ''('') (CHR '')'') text, 321),
      (match_span (CHR ''['') (CHR '']'') text, 322),
      (match_count (count_pair (CHR ''='') (CHR ''>'') text), 323),
      (match_count (length (filter (\<lambda>c. c = CHR ''.'') text)), 324),
      (match_count (count_pair (CHR '':'') (CHR '':'') text), 325),
      (match_count (count_pair (CHR ''-'') (CHR ''>'') text), 326)]"

definition addSemanticFeatures :: "string \<Rightarrow> real list \<Rightarrow> real list" where
  "addSemanticFeatures text vector =
     (let lowerText = toLowerCase text;
          vector1 =
            fold (\<lambda>(keywords, index) v.
                    let count = length (filter (\<lambda>kw. str_includes lowerText kw) keywords)
                    in if count > 0 \<and> index < dimension
                       then array_set v index (real count / real (length keywords)) else v)
                 keyword_features vector
      in fold (\<lambda>(matches, index) v.
                 case matches of
                   None \<Rightarrow> v
                 | Some n \<Rightarrow> if index < dimension then array_set v index (min (real n / 10) 1) else v)
              (structureFeatures text) vector1)"

definition tfidf_step ::
  "EmbeddingGenerator \<Rightarrow> string \<times> real \<Rightarrow> real list \<Rightarrow> real list" where
  "tfidf_step g = (\<lambda>(token, tfScore) vector.
     let idfScore = (case map_of (idfScores g) token of None \<Rightarrow> 0 | Some s \<Rightarrow> s)
     in case map_of (vocabulary g) token of
          None \<Rightarrow> vector
        | Some index \<Rightarrow>
            if index < dimension then array_set vector index (tfScore * idfScore)
            else let h = hashedIndex token
                 in array_set vector h (vector ! h + tfScore * idfScore))"

definition magnitude_of :: "real list \<Rightarrow> real" where
  "magnitude_of vector = sqrt (\<Sum>val\<leftarrow>vector. val * val)"

definition textToVector :: "EmbeddingGenerator \<Rightarrow> string \<Rightarrow> real list" where
  "textToVector g text =
     (let tf = computeTF (tokenize text);
          vector = addSemanticFeatures text (fold (tfidf_step g) tf (replicate dimension 0));
          magnitude = magnitude_of vector
      in if magnitude > 0 then map (\<lambda>val. val / magnitude) vector else vector)"

definition generate :: "EmbeddingGenerator \<Rightarrow> string \<Rightarrow> real list \<times> EmbeddingGenerator" where
  "generate g text =
     (let docs = documents g @ [text];
          vocab = updateVocabulary (vocabulary g) (tokenize text);
          g' = \<lparr>vocabulary = vocab, idfScores = computeIDF vocab docs, documents = docs\<rparr>
      in (textToVector g' text, g'))"

definition generateBatch ::
  "EmbeddingGenerator \<Rightarrow> string list \<Rightarrow> real list list \<times> EmbeddingGenerator" where
  "generateBatch g texts =
     (let docs = documents g @ texts;
          vocab = fold (\<lambda>text v. updateVocabulary v (tokenize text)) texts (vocabulary g);
          g' = \<lparr>vocabulary = vocab, idfScores = computeIDF vocab docs, documents = docs\<rparr>
      in (map (textToVector g') texts, g'))"

section \<open>In-memory vector store (src/vectorstore/memoryVectorStore.ts)\<close>

text \<open>
  \<open>metadata.lastModified\<close> is declared as a \<open>Date\<close>.  \<open>JSON.stringify\<close> writes a
  \<open>Date\<close> as its ISO string, and \<open>JSON.parse\<close> gives that string back, not a \<open>Date\<close>:
  the field holds either a date object or the ISO string of an instant
  (milliseconds since the epoch).
\<close>

datatype date_value = DateObject int | DateISOString int

record Metadata =
  signature :: "string option"
  docstring :: "string option"
  dependencies :: "string list option"
  complexity :: "real option"
  lastModified :: "date_value option"

text \<open>The fields \<open>id\<close> and \<open>type\<close> of the source are \<open>chunk_id\<close> and \<open>chunk_type\<close> here.\<close>

record CodeChunk =
  chunk_id :: string
  filepath :: string
  content :: string
  chunk_type :: string
  name :: string
  startLine :: int
  endLine :: int
  language :: string
  parentId :: "string option"
  metadata :: Metadata

record StoredChunk =
  chunk :: CodeChunk
  embedding :: "real list"

record VectorSearchResult =
  res_chunk :: CodeChunk
  score :: real

record PersistedItem =
  item_id :: string
  item_chunk :: CodeChunk
  item_embedding :: "real list"

text \<open>
  The file \<open>chunks.json\<close>: absent, present but not parseable, or a parsed array of
  items.
\<close>

datatype disk_file = NoFile | Corrupt | Snapshot "PersistedItem list"

record MemoryVectorStore =
  chunks :: "(string \<times> StoredChunk) list"
  embeddingGenerator :: EmbeddingGenerator
  disk :: disk_file

record Stats =
  totalChunks :: nat
  chunksByType :: "(string \<times> nat js_value) list"
  chunksByLanguage :: "(string \<times> nat js_value) list"

text \<open>
  The only error the vector stores raise themselves is
  \<open>Error('Vector store not initialized')\<close>; \<open>ClientError\<close> stands for a rejection
  coming from the ChromaDB client.
\<close>

datatype error = NotInitialized | ClientError string

text \<open>Truthiness of an optional string: present and not empty.\<close>

definition truthy :: "string option \<Rightarrow> bool" where
  "truthy s = (case s of None \<Rightarrow> False | Some x \<Rightarrow> x \<noteq> [])"

fun join :: "string \<Rightarrow> string list \<Rightarrow> string" where
  "join sep [] = []"
| "join sep [p] = p"
| "join sep (p # q # ps) = p @ sep @ join sep (q # ps)"

definition createChunkText :: "CodeChunk \<Rightarrow> string" where
  "createChunkText c =
     (let parts = [''Type: '' @ chunk_type c,
                   ''Name: '' @ name c,
                   ''Language: '' @ language c,
                   ''File: '' @ basename (filepath c)];
          parts = (if truthy (signature (metadata c))
                   then parts @ [''Signature: '' @ the (signature (metadata c))] else parts);
          parts = (if truthy (docstring (metadata c))
                   then parts @ [''Documentation: '' @ the (docstring (metadata c))] else parts);
          parts = parts @ [''Code:'' @ [CHR 0x0A] @ content c]
      in join [CHR 0x0A] parts)"

text \<open>
  \<open>cosineSimilarity(a, b)\<close> runs over the indices of \<open>a\<close> and reads \<open>b\<close> at the same
  indices.  Every embedding has \<^const>\<open>dimension\<close> entries; a \<open>b\<close> shorter than \<open>a\<close>
  would make the JavaScript result NaN, which this model does not represent.
\<close>

definition cosineSimilarity :: "real list \<Rightarrow> real list \<Rightarrow> real" where
  "cosineSimilarity a b =
     (let dotProduct = (\<Sum>(x, y)\<leftarrow>zip a b. x * y);
          normA = sqrt (\<Sum>(x, y)\<leftarrow>zip a b. x * x);
          normB = sqrt (\<Sum>(x, y)\<leftarrow>zip a b. y * y)
      in if normA = 0 \<or> normB = 0 then 0 else dotProduct / (normA * normB))"

text \<open>
  \<open>JSON.parse (JSON.stringify chunk)\<close>: strings, finite numbers, arrays and absent
  optional fields come back as they were; a \<open>Date\<close> comes back as its ISO string.
\<close>

definition json_date :: "date_value \<Rightarrow> date_value" where
  "json_date d = (case d of DateObject t \<Rightarrow> DateISOString t | DateISOString t \<Rightarrow> DateISOString t)"

definition json_chunk :: "CodeChunk \<Rightarrow> CodeChunk" where
  "json_chunk c =
     c\<lparr>metadata := (metadata c)\<lparr>lastModified := map_option json_date (lastModified (metadata c))\<rparr>\<rparr>"

text \<open>
  \<open>saveToDisk\<close> overwrites \<open>chunks.json\<close> with the entries of the map, in map order.
  (A failing write is caught and logged by the source; the model takes the write to
  succeed.)
\<close>

definition saveToDisk :: "MemoryVectorStore \<Rightarrow> MemoryVectorStore" where
  "saveToDisk s =
     s\<lparr>disk := Snapshot (map (\<lambda>(id, stored).
                               \<lparr>item_id = id, item_chunk = json_chunk (chunk stored),
                                item_embedding = embedding stored\<rparr>)
                            (chunks s))\<rparr>"

definition loadFromDisk :: "MemoryVectorStore \<Rightarrow> MemoryVectorStore" where
  "loadFromDisk s =
     (case disk s of
        NoFile \<Rightarrow> s
      | Corrupt \<Rightarrow> s
      | Snapshot data \<Rightarrow>
          s\<lparr>chunks := fold (\<lambda>item m. AList.update (item_id item)
                                        \<lparr>chunk = item_chunk item, embedding = item_embedding item\<rparr> m)
                           data (chunks s)\<rparr>)"

text \<open>The constructor: an empty map, a new generator, then \<open>loadFromDisk\<close>.\<close>

definition new_MemoryVectorStore :: "disk_file \<Rightarrow> MemoryVectorStore" where
  "new_MemoryVectorStore file =
     loadFromDisk \<lparr>chunks = [], embeddingGenerator = new_EmbeddingGenerator, disk = file\<rparr>"

text \<open>
  The methods are \<open>async\<close>: a call either resolves (\<open>Inr\<close>, with the result and the
  store after the call) or rejects (\<open>Inl\<close>).  \<open>initialize\<close> only initializes the
  generator, which "needs no initialization", and logs.
\<close>

definition initialize :: "MemoryVectorStore \<Rightarrow> string \<Rightarrow> error + MemoryVectorStore" where
  "initialize s projectName = Inr s"

definition addChunks :: "MemoryVectorStore \<Rightarrow> CodeChunk list \<Rightarrow> error + MemoryVectorStore" where
  "addChunks s cs =
     (let (embeddings, g') = generateBatch (embeddingGenerator s) (map createChunkText cs);
          m = fold (\<lambda>(c, e) m. AList.update (chunk_id c) \<lparr>chunk = c, embedding = e\<rparr> m)
                   (zip cs embeddings) (chunks s)
      in Inr (saveToDisk (s\<lparr>chunks := m, embeddingGenerator := g'\<rparr>)))"

definition search ::
  "MemoryVectorStore \<Rightarrow> string \<Rightarrow> nat \<Rightarrow> error + (VectorSearchResult list \<times> MemoryVectorStore)" where
  "search s query k =
     (let (queryEmbedding, g') = generate (embeddingGenerator s) query;
          results = map (\<lambda>(id, storedChunk).
                           \<lparr>res_chunk = chunk storedChunk,
                            score = 1 - cosineSimilarity queryEmbedding (embedding storedChunk)\<rparr>)
                        (chunks s)
      in Inr (take k (sort_key score results), s\<lparr>embeddingGenerator := g'\<rparr>))"

definition searchByCode ::
  "MemoryVectorStore \<Rightarrow> string \<Rightarrow> nat \<Rightarrow> error + (VectorSearchResult list \<times> MemoryVectorStore)" where
  "searchByCode s codeSnippet k = search s (''Code similar to: '' @ codeSnippet) k"

definition getChunkById :: "MemoryVectorStore \<Rightarrow> string \<Rightarrow> error + CodeChunk option" where
  "getChunkById s chunkId = Inr (map_option chunk (map_of (chunks s) chunkId))"

definition getRelatedChunks ::
  "MemoryVectorStore \<Rightarrow> string \<Rightarrow> nat \<Rightarrow> error + (VectorSearchResult list \<times> MemoryVectorStore)" where
  "getRelatedChunks s chunkId k =
     (case getChunkById s chunkId of
        Inl e \<Rightarrow> Inl e
      | Inr None \<Rightarrow> Inr ([], s)
      | Inr (Some c) \<Rightarrow>
          (case search s (createChunkText c) (k + 1) of
             Inl e \<Rightarrow> Inl e
           | Inr (results, s') \<Rightarrow>
               Inr (take k (filter (\<lambda>r. chunk_id (res_chunk r) \<noteq> chunkId) results), s')))"

definition updateChunk :: "MemoryVectorStore \<Rightarrow> CodeChunk \<Rightarrow> error + MemoryVectorStore" where
  "updateChunk s c =
     (let (e, g') = generate (embeddingGenerator s) (createChunkText c)
      in Inr (saveToDisk (s\<lparr>chunks := AList.update (chunk_id c) \<lparr>chunk = c, embedding = e\<rparr> (chunks s),
                             embeddingGenerator := g'\<rparr>)))"

definition deleteChunks :: "MemoryVectorStore \<Rightarrow> string list \<Rightarrow> error + MemoryVectorStore" where
  "deleteChunks s chunkIds =
     Inr (saveToDisk (s\<lparr>chunks := fold (\<lambda>id m. AList.delete id m) chunkIds (chunks s)\<rparr>))"

text \<open>
  The histograms of \<open>getStats\<close> are plain objects used as dictionaries; a key is
  counted with \<open>histogram[key] = (histogram[key] || 0) + 1\<close>.  \<open>histogram_total\<close> adds
  up the counts of a histogram, and is \<open>None\<close> when a value of it is not a number.
\<close>

definition count_key :: "string \<Rightarrow> (string \<times> nat js_value) list \<Rightarrow> (string \<times> nat js_value) list" where
  "count_key key histogram =
     set_property key (plus_number (or_else (get_property histogram key) (NumberValue 0)) 1) histogram"

fun histogram_total :: "(string \<times> nat js_value) list \<Rightarrow> nat option" where
  "histogram_total [] = Some 0"
| "histogram_total ((key, NumberValue n) # histogram) = map_option (\<lambda>m. n + m) (histogram_total histogram)"
| "histogram_total ((key, v) # histogram) = None"

definition getStats :: "MemoryVectorStore \<Rightarrow> error + Stats" where
  "getStats s =
     Inr (fold (\<lambda>(_, storedChunk) stats.
                  stats\<lparr>chunksByType := count_key (chunk_type (chunk storedChunk)) (chunksByType stats),
                        chunksByLanguage := count_key (language (chunk storedChunk)) (chunksByLanguage stats)\<rparr>)
               (chunks s)
               \<lparr>totalChunks = length (chunks s), chunksByType = [], chunksByLanguage = []\<rparr>)"

definition clearAll :: "MemoryVectorStore \<Rightarrow> error + MemoryVectorStore" where
  "clearAll s = Inr (s\<lparr>chunks := [], disk := NoFile\<rparr>)"

text \<open>
  Serializing a store and loading the snapshot into a newly constructed store.
\<close>

definition reloaded :: "MemoryVectorStore \<Rightarrow> MemoryVectorStore" where
  "reloaded s = new_MemoryVectorStore (disk (saveToDisk s))"

text \<open>
  The stores a running engine can be in: a store is constructed on the snapshot file
  left by an earlier store (or on no file, or on an unreadable one), and changes
  through its own methods.
\<close>

inductive reachable :: "MemoryVectorStore \<Rightarrow> bool" where
  construct_no_file: "reachable (new_MemoryVectorStore NoFile)"
| construct_corrupt: "reachable (new_MemoryVectorStore Corrupt)"
| construct_again: "reachable s \<Longrightarrow> reachable (new_MemoryVectorStore (disk s))"
| after_initialize: "reachable s \<Longrightarrow> initialize s projectName = Inr s' \<Longrightarrow> reachable s'"
| after_addChunks: "reachable s \<Longrightarrow> addChunks s cs = Inr s' \<Longrightarrow> reachable s'"
| after_search: "reachable s \<Longrightarrow> search s query k = Inr (results, s') \<Longrightarrow> reachable s'"
| after_searchByCode: "reachable s \<Longrightarrow> searchByCode s snippet k = Inr (results, s') \<Longrightarrow> reachable s'"
| after_getRelatedChunks:
    "reachable s \<Longrightarrow> getRelatedChunks s chunkId k = Inr (results, s') \<Longrightarrow> reachable s'"
| after_updateChunk: "reachable s \<Longrightarrow> updateChunk s c = Inr s' \<Longrightarrow> reachable s'"
| after_deleteChunks: "reachable s \<Longrightarrow> deleteChunks s chunkIds = Inr s' \<Longrightarrow> reachable s'"
| after_clearAll: "reachable s \<Longrightarrow> clearAll s = Inr s' \<Longrightarrow> reachable s'"

text \<open>An embedding as the data model describes it.\<close>

definition l2_normalized :: "real list \<Rightarrow> bool" where
  "l2_normalized v = (sqrt (\<Sum>x\<leftarrow>v. x * x) = 1)"

definition all_zero :: "real list \<Rightarrow> bool" where
  "all_zero v = (v = replicate (length v) 0)"

definition valid_embedding :: "real list \<Rightarrow> bool" where
  "valid_embedding v = (length v = 384 \<and> (l2_normalized v \<or> all_zero v))"

definition stored_embeddings :: "MemoryVectorStore \<Rightarrow> real list list" where
  "stored_embeddings s = map (\<lambda>(id, stored). embedding stored) (chunks s)"

text \<open>
  The invariant of the store: the embeddings in the map and those in the snapshot
  file are valid.
\<close>

definition disk_embeddings :: "disk_file \<Rightarrow> real list list" where
  "disk_embeddings file = (case file of Snapshot items \<Rightarrow> map item_embedding items | _ \<Rightarrow> [])"

definition embeddings_ok :: "MemoryVectorStore \<Rightarrow> bool" where
  "embeddings_ok s =
     (\<forall>e \<in> set (stored_embeddings s) \<union> set (disk_embeddings (disk s)). valid_embedding e)"

section \<open>ChromaDB-backed vector store (src/vectorstore/vectorStore.ts)\<close>

text \<open>
  The class \<open>VectorStore\<close> of \<open>vectorStore.ts\<close> keeps its data in a ChromaDB
  collection, which is \<open>null\<close> until \<open>initialize\<close> has obtained one.  The collection
  and the client calls belong to the \<open>chromadb\<close> package: what the body of each
  method does with the collection once the guard is passed is a parameter.
\<close>

record 'c ChromaClient =
  chroma_open :: "string \<Rightarrow> error + 'c"
  chroma_add :: "'c \<Rightarrow> CodeChunk list \<Rightarrow> error + 'c"
  chroma_query :: "'c \<Rightarrow> string \<Rightarrow> nat \<Rightarrow> error + VectorSearchResult list"
  chroma_get :: "'c \<Rightarrow> string \<Rightarrow> error + CodeChunk option"
  chroma_update :: "'c \<Rightarrow> CodeChunk \<Rightarrow> error + 'c"
  chroma_delete :: "'c \<Rightarrow> string list \<Rightarrow> error + 'c"
  chroma_stats :: "'c \<Rightarrow> error + Stats"

record 'c VectorStore =
  collection :: "'c option"

definition new_VectorStore :: "'c VectorStore" where
  "new_VectorStore = \<lparr>collection = None\<rparr>"

definition vs_initialize :: "'c ChromaClient \<Rightarrow> 'c VectorStore \<Rightarrow> string \<Rightarrow> error + 'c VectorStore" where
  "vs_initialize client s projectName =
     (case chroma_open client projectName of
        Inl e \<Rightarrow> Inl e
      | Inr col \<Rightarrow> Inr (s\<lparr>collection := Some col\<rparr>))"

definition vs_addChunks :: "'c ChromaClient \<Rightarrow> 'c VectorStore \<Rightarrow> CodeChunk list \<Rightarrow> error + 'c VectorStore" where
  "vs_addChunks client s cs =
     (case collection s of
        None \<Rightarrow> Inl NotInitialized
      | Some col \<Rightarrow>
          (case chroma_add client col cs of
             Inl e \<Rightarrow> Inl e
           | Inr col' \<Rightarrow> Inr (s\<lparr>collection := Some col'\<rparr>)))"

definition vs_search ::
  "'c ChromaClient \<Rightarrow> 'c VectorStore \<Rightarrow> string \<Rightarrow> nat \<Rightarrow> error + VectorSearchResult list" where
  "vs_search client s query k =
     (case collection s of
        None \<Rightarrow> Inl NotInitialized
      | Some col \<Rightarrow> chroma_query client col query k)"

definition vs_searchByCode ::
  "'c ChromaClient \<Rightarrow> 'c VectorStore \<Rightarrow> string \<Rightarrow> nat \<Rightarrow> error + VectorSearchResult list" where
  "vs_searchByCode client s codeSnippet k = vs_search client s (''Code similar to: '' @ codeSnippet) k"

definition vs_getChunkById ::
  "'c ChromaClient \<Rightarrow> 'c VectorStore \<Rightarrow> string \<Rightarrow> error + CodeChunk option" where
  "vs_getChunkById client s chunkId =
     (case collection s of
        None \<Rightarrow> Inl NotInitialized
      | Some col \<Rightarrow> chroma_get client col chunkId)"

definition vs_getRelatedChunks ::
  "'c ChromaClient \<Rightarrow> 'c VectorStore \<Rightarrow> string \<Rightarrow> nat \<Rightarrow> error + VectorSearchResult list" where
  "vs_getRelatedChunks client s chunkId k =
     (case collection s of
        None \<Rightarrow> Inl NotInitialized
      | Some col \<Rightarrow>
          (case vs_getChunkById client s chunkId of
             Inl e \<Rightarrow> Inl e
           | Inr None \<Rightarrow> Inr []
           | Inr (Some c) \<Rightarrow>
               (case vs_search client s (createChunkText c) (k + 1) of
                  Inl e \<Rightarrow> Inl e
                | Inr results \<Rightarrow>
                    Inr (take k (filter (\<lambda>r. chunk_id (res_chunk r) \<noteq> chunkId) results)))))"

definition vs_updateChunk :: "'c ChromaClient \<Rightarrow> 'c VectorStore \<Rightarrow> CodeChunk \<Rightarrow> error + 'c VectorStore" where
  "vs_updateChunk client s c =
     (case collection s of
        None \<Rightarrow> Inl NotInitialized
      | Some col \<Rightarrow>
          (case chroma_update client col c of
             Inl e \<Rightarrow> Inl e
           | Inr col' \<Rightarrow> Inr (s\<lparr>collection := Some col'\<rparr>)))"

definition vs_deleteChunks :: "'c ChromaClient \<Rightarrow> 'c VectorStore \<Rightarrow> string list \<Rightarrow> error + 'c VectorStore" where
  "vs_deleteChunks client s chunkIds =
     (case collection s of
        None \<Rightarrow> Inl NotInitialized
      | Some col \<Rightarrow>
          (case chroma_delete client col chunkIds of
             Inl e \<Rightarrow> Inl e
           | Inr col' \<Rightarrow> Inr (s\<lparr>collection := Some col'\<rparr>)))"

definition vs_getStats :: "'c ChromaClient \<Rightarrow> 'c VectorStore \<Rightarrow> error + Stats" where
  "vs_getStats client s =
     (case collection s of
        None \<Rightarrow> Inl NotInitialized
      | Some col \<Rightarrow> chroma_stats client col)"

section \<open>Context manager (src/context/contextManager.ts)\<close>

datatype feedback = Helpful | NotHelpful

text \<open>
  A \<open>timestamp\<close> is declared as a \<open>Date\<close>; an entry read back from \<open>memory.json\<close>
  holds the ISO string instead (\<open>loadMemoryEntries\<close> stores what \<open>JSON.parse\<close> yields).
  The source's field \<open>id\<close> is \<open>entry_id\<close>; the field \<open>context\<close>, which only carries the
  project context along, is left out.
\<close>

record MemoryEntry =
  entry_id :: string
  timestamp :: date_value
  query :: string
  response :: string
  relevantChunks :: "string list"
  feedback :: "feedback option"

text \<open>
  \<open>timestamp.getTime()\<close>: the instant of a \<open>Date\<close>; a string has no method
  \<open>getTime\<close>, and calling it throws a \<open>TypeError\<close> (\<open>None\<close>).  \<open>instant\<close> is the point
  in time a value denotes, either way.
\<close>

datatype runtime_error = TypeError

definition getTime :: "date_value \<Rightarrow> int option" where
  "getTime d = (case d of DateObject t \<Rightarrow> Some t | DateISOString t \<Rightarrow> None)"

definition instant :: "date_value \<Rightarrow> int" where
  "instant d = (case d of DateObject t \<Rightarrow> t | DateISOString t \<Rightarrow> t)"

text \<open>
  The file \<open>memory.json\<close>: absent, present but not parseable as an array of entries,
  or a parsed array of entries.  \<open>JSON.stringify\<close> writes the timestamp of an entry as
  its ISO string.
\<close>

datatype ledger_file = NoLedger | CorruptLedger | Ledger "MemoryEntry list"

definition json_entry :: "MemoryEntry \<Rightarrow> MemoryEntry" where
  "json_entry e = e\<lparr>timestamp := json_date (timestamp e)\<rparr>"

text \<open>
  The part of the context manager the ledger lives in: the map \<open>memoryEntries\<close> and
  the file \<open>memory.json\<close>.
\<close>

record ContextManager =
  memoryEntries :: "(string \<times> MemoryEntry) list"
  memory_json :: ledger_file

definition maxMemoryEntries :: nat where
  "maxMemoryEntries = 1000"

text \<open>
  \<open>loadMemoryEntries\<close> puts every entry of a readable \<open>memory.json\<close> into the map as
  parsed; an error while reading is caught and logged.  The constructor starts from
  the empty map and calls it.
\<close>

definition loadMemoryEntries :: "ContextManager \<Rightarrow> ContextManager" where
  "loadMemoryEntries cm =
     (case memory_json cm of
        Ledger entries \<Rightarrow>
          cm\<lparr>memoryEntries := fold (\<lambda>entry m. AList.update (entry_id entry) entry m) entries (memoryEntries cm)\<rparr>
      | _ \<Rightarrow> cm)"

definition new_ContextManager :: "ledger_file \<Rightarrow> ContextManager" where
  "new_ContextManager file = loadMemoryEntries \<lparr>memoryEntries = [], memory_json = file\<rparr>"

text \<open>
  \<open>saveMemoryEntries\<close> sorts the values of the map with the comparator
  \<open>b.timestamp.getTime() - a.timestamp.getTime()\<close>, keeps the first 1000 and
  overwrites \<open>memory.json\<close> with them.  \<open>Array.prototype.sort\<close> does not call the
  comparator on an array of fewer than two elements, and on a longer array it calls
  it with every element; so the sort throws a \<open>TypeError\<close>, before anything is
  written, exactly when the map has two or more values and the timestamp of one of
  them is a string.  Otherwise it is the stable sort by descending instant.
\<close>

definition saveMemoryEntries :: "ContextManager \<Rightarrow> runtime_error + ContextManager" where
  "saveMemoryEntries cm =
     (let entries = map snd (memoryEntries cm)
      in if 2 \<le> length entries \<and> list_ex (\<lambda>e. getTime (timestamp e) = None) entries
         then Inl TypeError
         else Inr (cm\<lparr>memory_json :=
                         Ledger (map json_entry
                                   (take maxMemoryEntries
                                      (sort_key (\<lambda>e. - instant (timestamp e)) entries)))\<rparr>))"

text \<open>
  \<open>recordMemoryEntry\<close>; the identifier drawn from \<open>nanoid()\<close> and the instant read
  from the clock are arguments.  The entry is put into the map before the ledger is
  saved: when saving throws, the call rejects and the map keeps the entry.  The
  result is the outcome of the call together with the context manager after it.
\<close>

definition recordMemoryEntry ::
  "ContextManager \<Rightarrow> string \<Rightarrow> int \<Rightarrow> string \<Rightarrow> string \<Rightarrow> string list \<Rightarrow> feedback option
     \<Rightarrow> (runtime_error + MemoryEntry) \<times> ContextManager" where
  "recordMemoryEntry cm fresh_id now q r cs fb =
     (let entry = \<lparr>entry_id = fresh_id, timestamp = DateObject now, query = q, response = r,
                   relevantChunks = cs, feedback = fb\<rparr>;
          cm = cm\<lparr>memoryEntries := AList.update (entry_id entry) entry (memoryEntries cm)\<rparr>
      in case saveMemoryEntries cm of
           Inl e \<Rightarrow> (Inl e, cm)
         | Inr cm' \<Rightarrow> (Inr entry, cm'))"

text \<open>One recorded interaction: the arguments of a call of \<open>recordMemoryEntry\<close>.\<close>

record Recording =
  rec_id :: string
  rec_time :: int
  rec_query :: string
  rec_response :: string
  rec_chunks :: "string list"
  rec_feedback :: "feedback option"

definition entry_of :: "Recording \<Rightarrow> MemoryEntry" where
  "entry_of c = \<lparr>entry_id = rec_id c, timestamp = DateObject (rec_time c), query = rec_query c,
                  response = rec_response c, relevantChunks = rec_chunks c, feedback = rec_feedback c\<rparr>"

definition record_outcome :: "Recording \<Rightarrow> ContextManager \<Rightarrow> runtime_error + MemoryEntry" where
  "record_outcome c cm =
     fst (recordMemoryEntry cm (rec_id c) (rec_time c) (rec_query c) (rec_response c)
            (rec_chunks c) (rec_feedback c))"

definition record_call :: "Recording \<Rightarrow> ContextManager \<Rightarrow> ContextManager" where
  "record_call c cm =
     snd (recordMemoryEntry cm (rec_id c) (rec_time c) (rec_query c) (rec_response c)
            (rec_chunks c) (rec_feedback c))"

definition record_all :: "ContextManager \<Rightarrow> Recording list \<Rightarrow> ContextManager" where
  "record_all cm calls = fold record_call calls cm"

definition persisted_ledger :: "ContextManager \<Rightarrow> MemoryEntry list" where
  "persisted_ledger cm = (case memory_json cm of Ledger entries \<Rightarrow> entries | _ \<Rightarrow> [])"

definition newest_first :: "MemoryEntry list \<Rightarrow> bool" where
  "newest_first entries = sorted (map (\<lambda>e. - instant (timestamp e)) entries)"

text \<open>The context manager constructed where no \<open>memory.json\<close> exists.\<close>

definition new_ledger :: ContextManager where
  "new_ledger = new_ContextManager NoLedger"



section \<open>Example values\<close>

definition no_metadata :: Metadata where
  "no_metadata = \<lparr>signature = None, docstring = None, dependencies = None,
                    complexity = None, lastModified = None\<rparr>"

definition empty_store :: MemoryVectorStore where
  "empty_store = new_MemoryVectorStore NoFile"

definition chunk_x :: CodeChunk where
  "chunk_x = \<lparr>chunk_id = ''c'', filepath = ''/src/x'', content = [], chunk_type = ''module'',
              name = ''x'', startLine = 0, endLine = 0, language = ''x'', parentId = None,
              metadata = no_metadata\<lparr>lastModified := Some (DateObject 0)\<rparr>\<rparr>"

text \<open>The store after \<open>updateChunk(chunk_x)\<close> on the empty store.\<close>

definition store_x :: MemoryVectorStore where
  "store_x = projr (updateChunk empty_store chunk_x)"

text \<open>A ChromaDB client every call of which is rejected.\<close>

definition null_client :: "unit ChromaClient" where
  "null_client =
     \<lparr>chroma_open = (\<lambda>_. Inl (ClientError [])),
      chroma_add = (\<lambda>_ _. Inl (ClientError [])),
      chroma_query = (\<lambda>_ _ _. Inl (ClientError [])),
      chroma_get = (\<lambda>_ _. Inl (ClientError [])),
      chroma_update = (\<lambda>_ _. Inl (ClientError [])),
      chroma_delete = (\<lambda>_ _. Inl (ClientError [])),
      chroma_stats = (\<lambda>_. Inl (ClientError []))\<rparr>"

text \<open>
  A recording made in an earlier session, and the context manager that a restarted
  engine constructs on the \<open>memory.json\<close> which that session has written.
\<close>

definition earlier_recording :: Recording where
  "earlier_recording =
     \<lparr>rec_id = ''a'', rec_time = - 1, rec_query = ''q'', rec_response = ''r'',
      rec_chunks = [], rec_feedback = None\<rparr>"

definition restarted_ledger :: ContextManager where
  "restarted_ledger = new_ContextManager (memory_json (record_call earlier_recording new_ledger))"

text \<open>1001 recordings with distinct identifiers, one per millisecond.\<close>

definition example_recording :: "nat \<Rightarrow> Recording" where
  "example_recording n =
     \<lparr>rec_id = replicate n (CHR ''i''), rec_time = int n, rec_query = ''q'',
      rec_response = ''r'', rec_chunks = [], rec_feedback = None\<rparr>"

definition example_recordings :: "Recording list" where
  "example_recordings = map example_recording [0..<1001]"


definition chunk_l :: CodeChunk where
  "chunk_l = \<lparr>chunk_id = ''l'', filepath = ''/src/x'', content = [], chunk_type = ''module'',
              name = ''x'', startLine = 0, endLine = 0, language = ''constructor'', parentId = None,
              metadata = no_metadata\<rparr>"

definition store_l :: MemoryVectorStore where
  "store_l = projr (updateChunk empty_store chunk_l)"

text \<open>
  Two chunks that differ in their ids and names only; every word of the text of
  \<open>chunk_x\<close> occurs in the text of \<open>chunk_d\<close>.  \<open>store_dx\<close> is the empty store
  after \<open>addChunks([chunk_d, chunk_x])\<close>.
\<close>

definition chunk_d :: CodeChunk where
  "chunk_d = \<lparr>chunk_id = ''d'', filepath = ''/src/x'', content = [], chunk_type = ''module'',
              name = ''xy'', startLine = 0, endLine = 0, language = ''x'', parentId = None,
              metadata = no_metadata\<rparr>"

definition store_dx :: MemoryVectorStore where
  "store_dx = projr (addChunks empty_store [chunk_d, chunk_x])"



section \<open>Search and related chunks\<close>

lemma chunks_empty_store: "chunks empty_store = []"
  by (simp add: empty_store_def new_MemoryVectorStore_def loadFromDisk_def)

lemma search_resolves: "\<exists>results s'. search s q k = Inr (results, s')"
  by (simp add: search_def split: prod.splits)

lemma getRelatedChunks_absent:
  "map_of (chunks s) chunkId = None \<Longrightarrow> getRelatedChunks s chunkId k = Inr ([], s)"
  by (simp add: getRelatedChunks_def getChunkById_def)

lemma getRelatedChunks_present:
  assumes "map_of (chunks s) chunkId = Some st"
    and "search s (createChunkText (chunk st)) (k + 1) = Inr (results, s')"
  shows "getRelatedChunks s chunkId k =
         Inr (take k (filter (\<lambda>r. chunk_id (res_chunk r) \<noteq> chunkId) results), s')"
  unfolding getRelatedChunks_def getChunkById_def using assms by simp

lemma take_filter_props:
  "length (take k (filter P xs)) \<le> k \<and> (\<forall>r \<in> set (take k (filter P xs)). P r)"
proof -
  have "set (take k (filter P xs)) \<subseteq> set (filter P xs)" by (rule set_take_subset)
  then show ?thesis by auto
qed

lemma getRelatedChunks_resolves: "\<exists>results s'. getRelatedChunks s chunkId k = Inr (results, s')"
proof (cases "map_of (chunks s) chunkId")
  case None
  then show ?thesis using getRelatedChunks_absent by blast
next
  case (Some st)
  obtain results s' where "search s (createChunkText (chunk st)) (k + 1) = Inr (results, s')"
    using search_resolves by blast
  from getRelatedChunks_present[OF Some this] show ?thesis by blast
qed

text \<open>
  Claim C7.  For every store, every chunk id and every \<open>k\<close>, \<open>getRelatedChunks(id, k)\<close>
  resolves with at most \<open>k\<close> results, none of which is the chunk \<open>id\<close> itself; when
  \<open>id\<close> is not a key of the store, the result is the empty list and the store is
  left as it was.
\<close>

theorem getRelatedChunks_excludes_self:
  "(map_of (chunks s) chunkId = None \<longrightarrow> getRelatedChunks s chunkId k = Inr ([], s)) \<and>
   (\<exists>results s'. getRelatedChunks s chunkId k = Inr (results, s') \<and> length results \<le> k \<and>
       (\<forall>r \<in> set results. chunk_id (res_chunk r) \<noteq> chunkId))"
proof (cases "map_of (chunks s) chunkId")
  case None
  have "getRelatedChunks s chunkId k = Inr ([], s)" by (rule getRelatedChunks_absent[OF None])
  then show ?thesis by simp
next
  case (Some st)
  obtain results s' where r: "search s (createChunkText (chunk st)) (k + 1) = Inr (results, s')"
    using search_resolves by blast
  let ?rs = "take k (filter (\<lambda>r. chunk_id (res_chunk r) \<noteq> chunkId) results)"
  have 1: "getRelatedChunks s chunkId k = Inr (?rs, s')"
    by (rule getRelatedChunks_present[OF Some r])
  have 2: "length ?rs \<le> k \<and> (\<forall>r \<in> set ?rs. chunk_id (res_chunk r) \<noteq> chunkId)"
    by (rule take_filter_props)
  have "\<exists>results s'. getRelatedChunks s chunkId k = Inr (results, s') \<and> length results \<le> k \<and>
       (\<forall>r \<in> set results. chunk_id (res_chunk r) \<noteq> chunkId)"
    using 1 2 by blast
  moreover have "map_of (chunks s) chunkId \<noteq> None" using Some by simp
  ultimately show ?thesis by blast
qed

text \<open>
  Claim C8.  On a store that holds no chunks, \<open>search\<close> resolves, for every query and
  every \<open>k\<close>, with the empty list; the only effect is that the query has been fed to
  the embedding generator.
\<close>

theorem search_empty_store:
  "chunks s = [] \<Longrightarrow>
   search s q k = Inr ([], s\<lparr>embeddingGenerator := snd (generate (embeddingGenerator s) q)\<rparr>)"
  by (simp add: search_def split: prod.splits)

theorem search_empty_store_witness:
  "chunks empty_store = [] \<and>
   search empty_store ''anything'' 5 =
     Inr ([], empty_store\<lparr>embeddingGenerator :=
                            snd (generate (embeddingGenerator empty_store) ''anything'')\<rparr>)"
proof -
  have h: "chunks empty_store = []" by (rule chunks_empty_store)
  from search_empty_store[OF h] h show ?thesis by blast
qed

section \<open>Facts shared by the sections below\<close>

lemma updateChunk_eq:
  "updateChunk s c =
     Inr (saveToDisk
            (s\<lparr>chunks := AList.update (chunk_id c)
                   \<lparr>chunk = c, embedding = fst (generate (embeddingGenerator s) (createChunkText c))\<rparr>
                   (chunks s),
               embeddingGenerator := snd (generate (embeddingGenerator s) (createChunkText c))\<rparr>))"
  by (simp add: updateChunk_def split: prod.splits)

lemma saveToDisk_fields:
  "chunks (saveToDisk s) = chunks s"
  "embeddingGenerator (saveToDisk s) = embeddingGenerator s"
  by (simp_all add: saveToDisk_def)

lemma generator_empty_store: "embeddingGenerator empty_store = new_EmbeddingGenerator"
  by (simp add: empty_store_def new_MemoryVectorStore_def loadFromDisk_def)

lemma updateVocabulary_extends:
  "\<exists>new. updateVocabulary vocab tokens = vocab @ new"
  unfolding updateVocabulary_def
proof (induction tokens arbitrary: vocab)
  case Nil
  then show ?case by simp
next
  case (Cons t ts)
  show ?case
  proof (cases "map_of vocab t = None")
    case True
    from Cons.IH[of "vocab @ [(t, length vocab)]"] obtain new where
      "fold (\<lambda>token v. if map_of v token = None then v @ [(token, length v)] else v) ts
         (vocab @ [(t, length vocab)]) = (vocab @ [(t, length vocab)]) @ new" by blast
    with True show ?thesis by simp
  next
    case False
    with Cons.IH[of vocab] show ?thesis by auto
  qed
qed

lemma updateVocabulary_keeps:
  "fst ` set vocab \<subseteq> fst ` set (updateVocabulary vocab tokens)"
  using updateVocabulary_extends[of vocab tokens] by auto

lemma updateVocabulary_tokens:
  "set tokens \<subseteq> fst ` set (updateVocabulary vocab tokens)"
proof (induction tokens arbitrary: vocab)
  case Nil
  then show ?case by simp
next
  case (Cons t ts)
  let ?v = "if map_of vocab t = None then vocab @ [(t, length vocab)] else vocab"
  have step: "updateVocabulary vocab (t # ts) = updateVocabulary ?v ts"
    by (simp add: updateVocabulary_def)
  have "t \<in> fst ` set ?v"
    by (auto simp: map_of_eq_None_iff)
  with updateVocabulary_keeps[of ?v ts] have "t \<in> fst ` set (updateVocabulary ?v ts)"
    by blast
  with Cons.IH[of ?v] show ?case
    unfolding step by simp
qed

lemma map_of_computeIDF_eq:
  "map_of (computeIDF vocab docs) t =
     (if t \<in> fst ` set vocab \<and> 0 < documentCount docs t
      then Some (ln (real (if length docs = 0 then 1 else length docs) / real (documentCount docs t)))
      else None)"
  unfolding computeIDF_def Let_def
  by (induction vocab) (auto simp: map_filter_simps split: if_splits)

section \<open>Statistics\<close>

lemma histogram_total_update:
  "histogram_total h = Some n \<Longrightarrow>
   histogram_total (AList.update k (NumberValue (case map_of h k of Some (NumberValue m) \<Rightarrow> m + 1 | _ \<Rightarrow> 1)) h)
     = Some (Suc n)"
proof (induction h arbitrary: n)
  case Nil
  then show ?case by simp
next
  case (Cons p histogram)
  obtain key v where p: "p = (key, v)" by (cases p)
  show ?case
  proof (cases v)
    case (NumberValue m)
    with Cons p show ?thesis by (cases "histogram_total histogram") auto
  next
    case StringValue
    with Cons.prems p show ?thesis by simp
  next
    case ObjectValue
    with Cons.prems p show ?thesis by simp
  qed
qed

lemma histogram_total_numbers:
  "histogram_total h = Some n \<Longrightarrow> map_of h k = Some v \<Longrightarrow> \<exists>m. v = NumberValue m"
proof (induction h arbitrary: n)
  case Nil
  then show ?case by simp
next
  case (Cons p histogram)
  obtain key w where p: "p = (key, w)" by (cases p)
  show ?case
  proof (cases w)
    case (NumberValue m)
    with Cons p show ?thesis by (cases "histogram_total histogram") (auto split: if_splits)
  next
    case StringValue
    with Cons.prems p show ?thesis by simp
  next
    case ObjectValue
    with Cons.prems p show ?thesis by simp
  qed
qed

lemma sum_count_key:
  assumes "key \<notin> set object_prototype_keys" and "histogram_total h = Some n"
  shows "histogram_total (count_key key h) = Some (Suc n)"
proof -
  from assms(1) have k: "key \<noteq> ''__proto__''"
    by (auto simp: object_prototype_keys_def)
  show ?thesis
  proof (cases "map_of h key")
    case None
    with assms(1) k histogram_total_update[OF assms(2), of key] show ?thesis
      by (simp add: count_key_def get_property_def set_property_def or_else_def plus_number_def)
  next
    case (Some v)
    with histogram_total_numbers[OF assms(2)] obtain m where v: "v = NumberValue m" by blast
    with Some k histogram_total_update[OF assms(2), of key] show ?thesis
      by (auto simp: count_key_def get_property_def set_property_def or_else_def plus_number_def)
  qed
qed

lemma getStats_fold:
  assumes "fold (\<lambda>(_, storedChunk) stats.
           stats\<lparr>chunksByType := count_key (chunk_type (chunk storedChunk)) (chunksByType stats),
                 chunksByLanguage := count_key (language (chunk storedChunk)) (chunksByLanguage stats)\<rparr>)
        xs st0 = st"
    and "\<forall>(i, storedChunk) \<in> set xs.
           chunk_type (chunk storedChunk) \<notin> set object_prototype_keys \<and>
           language (chunk storedChunk) \<notin> set object_prototype_keys"
    and "histogram_total (chunksByType st0) = Some a"
    and "histogram_total (chunksByLanguage st0) = Some b"
  shows "totalChunks st = totalChunks st0
     \<and> histogram_total (chunksByType st) = Some (a + length xs)
     \<and> histogram_total (chunksByLanguage st) = Some (b + length xs)"
  using assms
proof (induction xs arbitrary: st0 a b)
  case Nil
  then show ?case by auto
next
  case (Cons x xs)
  obtain i sc where x: "x = (i, sc)" by (cases x)
  let ?st1 = "st0\<lparr>chunksByType := count_key (chunk_type (chunk sc)) (chunksByType st0),
               chunksByLanguage := count_key (language (chunk sc)) (chunksByLanguage st0)\<rparr>"
  from Cons.prems(1) have f: "fold (\<lambda>(_, storedChunk) stats.
             stats\<lparr>chunksByType := count_key (chunk_type (chunk storedChunk)) (chunksByType stats),
                   chunksByLanguage := count_key (language (chunk storedChunk)) (chunksByLanguage stats)\<rparr>)
          xs ?st1 = st"
    by (simp add: x)
  from Cons.prems(2) have k: "chunk_type (chunk sc) \<notin> set object_prototype_keys"
      "language (chunk sc) \<notin> set object_prototype_keys"
    and rest: "\<forall>(i, storedChunk) \<in> set xs.
           chunk_type (chunk storedChunk) \<notin> set object_prototype_keys \<and>
           language (chunk storedChunk) \<notin> set object_prototype_keys"
    by (auto simp: x)
  have t: "histogram_total (chunksByType ?st1) = Some (Suc a)"
    using sum_count_key[OF k(1) Cons.prems(3)] by simp
  have l: "histogram_total (chunksByLanguage ?st1) = Some (Suc b)"
    using sum_count_key[OF k(2) Cons.prems(4)] by simp
  from Cons.IH[OF f rest t l] show ?case by simp
qed

text \<open>
  While no type and no language of a stored chunk names a member of
  \<open>Object.prototype\<close>, \<open>getStats\<close> resolves with \<open>totalChunks\<close> equal to the number
  of entries of the store, every value of a histogram is a number, and the counts of
  each histogram add up to \<open>totalChunks\<close>.
\<close>

lemma getStats_consistent:
  assumes "\<forall>(i, storedChunk) \<in> set (chunks s).
             chunk_type (chunk storedChunk) \<notin> set object_prototype_keys \<and>
             language (chunk storedChunk) \<notin> set object_prototype_keys"
  shows "\<exists>st. getStats s = Inr st \<and> totalChunks st = length (chunks s) \<and>
        histogram_total (chunksByType st) = Some (totalChunks st) \<and>
        histogram_total (chunksByLanguage st) = Some (totalChunks st)"
  using getStats_fold[OF refl assms, of
          "\<lparr>totalChunks = length (chunks s), chunksByType = [], chunksByLanguage = []\<rparr>" 0 0]
  by (simp add: getStats_def)

lemma updateChunk_store_l: "updateChunk empty_store chunk_l = Inr store_l"
  by (simp add: store_l_def updateChunk_eq)

lemma chunks_store_l:
  "chunks store_l =
     [(''l'', \<lparr>chunk = chunk_l,
              embedding = fst (generate (embeddingGenerator empty_store) (createChunkText chunk_l))\<rparr>)]"
  by (simp add: store_l_def updateChunk_eq saveToDisk_fields chunks_empty_store chunk_l_def)

text \<open>
  Claim C10 holds that in every store state the counts of \<open>chunksByType\<close> and of
  \<open>chunksByLanguage\<close> each add up to \<open>totalChunks\<close>.  The code departs from it where
  a language (a free string) names a member of \<open>Object.prototype\<close>: for the store
  holding the one chunk \<open>chunk_l\<close>, of language \<open>constructor\<close>,
  \<open>stats.chunksByLanguage['constructor']\<close> reads the inherited function, \<open>|| 0\<close> keeps
  it, and \<open>+ 1\<close> makes a string of it.  \<open>getStats\<close> resolves with \<open>totalChunks = 1\<close>
  and a language histogram whose only value is that string, so its counts do not
  add up to 1.
\<close>

theorem getStats_inherited_key:
  "updateChunk empty_store chunk_l = Inr store_l \<and>
   map (\<lambda>(i, storedChunk). (i, language (chunk storedChunk))) (chunks store_l) = [(''l'', ''constructor'')] \<and>
   getStats store_l =
     Inr \<lparr>totalChunks = 1, chunksByType = [(''module'', NumberValue 1)],
          chunksByLanguage = [(''constructor'', StringValue)]\<rparr> \<and>
   histogram_total [(''module'', NumberValue 1)] = Some 1 \<and>
   histogram_total [(''constructor'', StringValue)] = None"
proof -
  have "getStats store_l =
     Inr \<lparr>totalChunks = 1, chunksByType = [(''module'', NumberValue 1)],
          chunksByLanguage = [(''constructor'', StringValue)]\<rparr>"
    by (simp add: getStats_def chunks_store_l chunk_l_def count_key_def
        get_property_def set_property_def or_else_def plus_number_def object_prototype_keys_def)
  moreover have "map (\<lambda>(i, storedChunk). (i, language (chunk storedChunk))) (chunks store_l)
                 = [(''l'', ''constructor'')]"
    by (simp add: chunks_store_l chunk_l_def)
  ultimately show ?thesis
    using updateChunk_store_l by simp
qed

section \<open>Chunk importance\<close>




section \<open>Updating a chunk\<close>

lemma createChunkText_chunk_x:
  "createChunkText chunk_x =
     ''Type: module'' @ [CHR 0x0A] @ ''Name: x'' @ [CHR 0x0A] @ ''Language: x'' @ [CHR 0x0A]
       @ ''File: x'' @ [CHR 0x0A] @ ''Code:'' @ [CHR 0x0A]"
  by (simp add: createChunkText_def chunk_x_def basename_def truthy_def no_metadata_def)

lemma generate_fields:
  "documents (snd (generate g t)) = documents g @ [t]"
  "vocabulary (snd (generate g t)) = updateVocabulary (vocabulary g) (tokenize t)"
  "idfScores (snd (generate g t)) =
     computeIDF (vocabulary (snd (generate g t))) (documents (snd (generate g t)))"
  by (simp_all add: generate_def Let_def)

lemma updateChunk_store_x: "updateChunk empty_store chunk_x = Inr store_x"
  by (simp add: store_x_def updateChunk_eq)

text \<open>
  Claim C1, as stated, fails: \<open>updateChunk\<close> embeds the chunk with \<open>generate\<close>, which
  appends the chunk text to the document list (and recomputes the IDF table).  On
  the empty store the document list is empty before the call and holds the text of
  the chunk after it.
\<close>

theorem updateChunk_changes_corpus:
  "updateChunk empty_store chunk_x = Inr store_x \<and>
   documents (embeddingGenerator empty_store) = [] \<and>
   documents (embeddingGenerator store_x) = [createChunkText chunk_x] \<and>
   documents (embeddingGenerator store_x) \<noteq> documents (embeddingGenerator empty_store)"
  by (simp add: updateChunk_store_x store_x_def updateChunk_eq saveToDisk_fields generate_fields
      generator_empty_store new_EmbeddingGenerator_def)

text \<open>
  Claim C1, amended.  \<open>updateChunk(chunk)\<close> resolves; in the map it sets the entry
  under the chunk's id, with the embedding \<open>generate\<close> yields for the chunk text, and
  leaves every other entry as it was; it overwrites \<open>chunks.json\<close> with the
  serialized entries of the resulting map; and it changes the corpus statistics as
  one call of \<open>generate\<close> on the chunk text does: the text is appended to the
  document list, the vocabulary keeps its entries and is extended so as to hold every
  token of the text, and the IDF table is recomputed over the whole document list:
  it holds \<open>ln (N / n)\<close> for exactly the vocabulary tokens that occur in \<open>n > 0\<close> of
  the now \<open>N\<close> documents.
\<close>

theorem updateChunk_effect:
  "\<exists>s'. updateChunk s c = Inr s' \<and>
     map_of (chunks s') =
       (map_of (chunks s))(chunk_id c \<mapsto>
          \<lparr>chunk = c, embedding = fst (generate (embeddingGenerator s) (createChunkText c))\<rparr>) \<and>
     disk s' =
       Snapshot (map (\<lambda>(id, stored). \<lparr>item_id = id, item_chunk = json_chunk (chunk stored),
                                       item_embedding = embedding stored\<rparr>)
                     (chunks s')) \<and>
     embeddingGenerator s' = snd (generate (embeddingGenerator s) (createChunkText c)) \<and>
     documents (embeddingGenerator s') = documents (embeddingGenerator s) @ [createChunkText c] \<and>
     vocabulary (embeddingGenerator s') =
       updateVocabulary (vocabulary (embeddingGenerator s)) (tokenize (createChunkText c)) \<and>
     (\<exists>new. vocabulary (embeddingGenerator s') = vocabulary (embeddingGenerator s) @ new) \<and>
     set (tokenize (createChunkText c)) \<subseteq> fst ` set (vocabulary (embeddingGenerator s')) \<and>
     idfScores (embeddingGenerator s') =
       computeIDF (vocabulary (embeddingGenerator s')) (documents (embeddingGenerator s')) \<and>
     map_of (idfScores (embeddingGenerator s')) t =
       (if t \<in> fst ` set (vocabulary (embeddingGenerator s')) \<and>
           0 < documentCount (documents (embeddingGenerator s) @ [createChunkText c]) t
        then Some (ln (real (length (documents (embeddingGenerator s)) + 1) /
                       real (documentCount (documents (embeddingGenerator s) @ [createChunkText c]) t)))
        else None)"
proof -
  let ?g = "embeddingGenerator s" and ?t = "createChunkText c"
  let ?s' = "saveToDisk
            (s\<lparr>chunks := AList.update (chunk_id c)
                   \<lparr>chunk = c, embedding = fst (generate ?g ?t)\<rparr> (chunks s),
               embeddingGenerator := snd (generate ?g ?t)\<rparr>)"
  have 1: "updateChunk s c = Inr ?s'" by (rule updateChunk_eq)
  have 2: "map_of (chunks ?s') =
       (map_of (chunks s))(chunk_id c \<mapsto> \<lparr>chunk = c, embedding = fst (generate ?g ?t)\<rparr>)"
    by (simp add: saveToDisk_fields update_conv')
  have 3: "disk ?s' =
       Snapshot (map (\<lambda>(id, stored). \<lparr>item_id = id, item_chunk = json_chunk (chunk stored),
                                       item_embedding = embedding stored\<rparr>)
                     (chunks ?s'))"
    by (simp add: saveToDisk_def)
  have 4: "embeddingGenerator ?s' = snd (generate ?g ?t)"
    by (simp add: saveToDisk_fields)
  have 5: "documents (snd (generate ?g ?t)) = documents ?g @ [?t]"
    and 6: "vocabulary (snd (generate ?g ?t)) = updateVocabulary (vocabulary ?g) (tokenize ?t)"
    and 7: "idfScores (snd (generate ?g ?t)) =
       computeIDF (vocabulary (snd (generate ?g ?t))) (documents (snd (generate ?g ?t)))"
    by (rule generate_fields)+
  have 8: "\<exists>new. vocabulary (snd (generate ?g ?t)) = vocabulary ?g @ new"
    unfolding 6 by (rule updateVocabulary_extends)
  have 9: "set (tokenize ?t) \<subseteq> fst ` set (vocabulary (snd (generate ?g ?t)))"
    unfolding 6 by (rule updateVocabulary_tokens)
  have 10: "map_of (idfScores (snd (generate ?g ?t))) t =
       (if t \<in> fst ` set (vocabulary (snd (generate ?g ?t))) \<and>
           0 < documentCount (documents ?g @ [?t]) t
        then Some (ln (real (length (documents ?g) + 1) / real (documentCount (documents ?g @ [?t]) t)))
        else None)"
    unfolding 7 map_of_computeIDF_eq 5 by simp
  note g = 5 6 7 8 9 10
  show ?thesis
  proof (intro exI[of _ ?s'] conjI)
    show "updateChunk s c = Inr ?s'" by (rule 1)
    show "map_of (chunks ?s') =
       (map_of (chunks s))(chunk_id c \<mapsto> \<lparr>chunk = c, embedding = fst (generate ?g ?t)\<rparr>)"
      by (rule 2)
    show "disk ?s' =
       Snapshot (map (\<lambda>(id, stored). \<lparr>item_id = id, item_chunk = json_chunk (chunk stored),
                                       item_embedding = embedding stored\<rparr>)
                     (chunks ?s'))"
      by (rule 3)
    show "embeddingGenerator ?s' = snd (generate ?g ?t)" by (rule 4)
    show "documents (embeddingGenerator ?s') = documents ?g @ [?t]"
      unfolding 4 by (rule 5)
    show "vocabulary (embeddingGenerator ?s') = updateVocabulary (vocabulary ?g) (tokenize ?t)"
      unfolding 4 by (rule 6)
    show "\<exists>new. vocabulary (embeddingGenerator ?s') = vocabulary ?g @ new"
      unfolding 4 by (rule 8)
    show "set (tokenize ?t) \<subseteq> fst ` set (vocabulary (embeddingGenerator ?s'))"
      unfolding 4 by (rule 9)
    show "idfScores (embeddingGenerator ?s') =
       computeIDF (vocabulary (embeddingGenerator ?s')) (documents (embeddingGenerator ?s'))"
      unfolding 4 by (rule 7)
    show "map_of (idfScores (embeddingGenerator ?s')) t =
       (if t \<in> fst ` set (vocabulary (embeddingGenerator ?s')) \<and>
           0 < documentCount (documents ?g @ [?t]) t
        then Some (ln (real (length (documents ?g) + 1) / real (documentCount (documents ?g @ [?t]) t)))
        else None)"
      unfolding 4 by (rule 10)
  qed
qed

section \<open>Use before \<open>initialize\<close>\<close>

text \<open>
  Claim C2, as stated, fails for the in-memory store, the one the context manager
  and the extension use: it has no notion of being initialized.  On a store that was
  only constructed, \<open>getStats\<close> resolves with empty statistics.
\<close>

theorem getStats_before_initialize:
  "getStats empty_store = Inr \<lparr>totalChunks = 0, chunksByType = [], chunksByLanguage = []\<rparr> \<and>
   getStats empty_store \<noteq> Inl NotInitialized"
  by (simp add: getStats_def chunks_empty_store)

text \<open>
  Claim C2, amended.  In the ChromaDB-backed store every read or write operation on
  an instance whose collection has not been obtained by \<open>initialize\<close> fails with
  \<open>NotInitialized\<close>.  In the in-memory store \<open>initialize\<close> leaves the store as it is,
  and no operation fails with \<open>NotInitialized\<close>.
\<close>

theorem not_initialized_guard:
  "(collection vs = None \<longrightarrow>
      vs_addChunks client vs cs = Inl NotInitialized \<and>
      vs_search client vs q k = Inl NotInitialized \<and>
      vs_searchByCode client vs q k = Inl NotInitialized \<and>
      vs_getRelatedChunks client vs i k = Inl NotInitialized \<and>
      vs_getChunkById client vs i = Inl NotInitialized \<and>
      vs_updateChunk client vs c = Inl NotInitialized \<and>
      vs_deleteChunks client vs ids = Inl NotInitialized \<and>
      vs_getStats client vs = Inl NotInitialized) \<and>
   initialize s n = Inr s \<and>
   addChunks s cs \<noteq> Inl NotInitialized \<and>
   search s q k \<noteq> Inl NotInitialized \<and>
   searchByCode s q k \<noteq> Inl NotInitialized \<and>
   getRelatedChunks s i k \<noteq> Inl NotInitialized \<and>
   getChunkById s i \<noteq> Inl NotInitialized \<and>
   updateChunk s c \<noteq> Inl NotInitialized \<and>
   deleteChunks s ids \<noteq> Inl NotInitialized \<and>
   getStats s \<noteq> Inl NotInitialized"
proof -
  have "getRelatedChunks s i k \<noteq> Inl NotInitialized"
    using getRelatedChunks_resolves[of s i k] by auto
  moreover have "collection vs = None \<longrightarrow>
      vs_addChunks client vs cs = Inl NotInitialized \<and>
      vs_search client vs q k = Inl NotInitialized \<and>
      vs_searchByCode client vs q k = Inl NotInitialized \<and>
      vs_getRelatedChunks client vs i k = Inl NotInitialized \<and>
      vs_getChunkById client vs i = Inl NotInitialized \<and>
      vs_updateChunk client vs c = Inl NotInitialized \<and>
      vs_deleteChunks client vs ids = Inl NotInitialized \<and>
      vs_getStats client vs = Inl NotInitialized"
    by (simp add: vs_addChunks_def vs_search_def vs_searchByCode_def vs_getRelatedChunks_def
        vs_getChunkById_def vs_updateChunk_def vs_deleteChunks_def vs_getStats_def)
  moreover have "initialize s n = Inr s \<and>
     addChunks s cs \<noteq> Inl NotInitialized \<and>
     search s q k \<noteq> Inl NotInitialized \<and>
     searchByCode s q k \<noteq> Inl NotInitialized \<and>
     getChunkById s i \<noteq> Inl NotInitialized \<and>
     updateChunk s c \<noteq> Inl NotInitialized \<and>
     deleteChunks s ids \<noteq> Inl NotInitialized \<and>
     getStats s \<noteq> Inl NotInitialized"
    by (simp add: initialize_def addChunks_def search_def searchByCode_def getChunkById_def
        updateChunk_def deleteChunks_def getStats_def split: prod.splits)
  ultimately show ?thesis by blast
qed

theorem not_initialized_guard_witness:
  "collection (new_VectorStore :: unit VectorStore) = None \<and>
   vs_addChunks null_client new_VectorStore [chunk_x] = Inl NotInitialized \<and>
   vs_search null_client new_VectorStore ''anything'' 5 = Inl NotInitialized \<and>
   vs_searchByCode null_client new_VectorStore ''anything'' 5 = Inl NotInitialized \<and>
   vs_getRelatedChunks null_client new_VectorStore ''c'' 5 = Inl NotInitialized \<and>
   vs_getChunkById null_client new_VectorStore ''c'' = Inl NotInitialized \<and>
   vs_updateChunk null_client new_VectorStore chunk_x = Inl NotInitialized \<and>
   vs_deleteChunks null_client new_VectorStore [''c''] = Inl NotInitialized \<and>
   vs_getStats null_client new_VectorStore = Inl NotInitialized"
proof -
  have h: "collection (new_VectorStore :: unit VectorStore) = None"
    by (simp add: new_VectorStore_def)
  from not_initialized_guard[of new_VectorStore null_client "[chunk_x]" "''anything''" 5 "''c''"
         chunk_x "[''c'']" empty_store "''p''"] h
  show ?thesis by blast
qed

section \<open>Memory ledger\<close>

lemma fold_update_fresh:
  "distinct (map fst xs) \<Longrightarrow> fst ` set xs \<inter> fst ` set acc = {} \<Longrightarrow>
   fold (\<lambda>(k, v) m. AList.update k v m) xs acc = acc @ xs"
proof (induction xs arbitrary: acc)
  case Nil
  then show ?case by simp
next
  case (Cons x xs)
  obtain k v where x: "x = (k, v)" by (cases x)
  have k: "k \<notin> fst ` set acc" using Cons.prems(2) x by auto
  then have u: "AList.update k v acc = acc @ [(k, v)]"
    by (induction acc) auto
  have "fold (\<lambda>(k, v) m. AList.update k v m) xs (acc @ [(k, v)]) = (acc @ [(k, v)]) @ xs"
  proof (rule Cons.IH)
    show "distinct (map fst xs)" using Cons.prems(1) by simp
    show "fst ` set xs \<inter> fst ` set (acc @ [(k, v)]) = {}"
      using Cons.prems x by auto
  qed
  then show ?case by (simp add: x u)
qed

lemma new_ledger_fields: "memoryEntries new_ledger = []" "memory_json new_ledger = NoLedger"
  by (simp_all add: new_ledger_def new_ContextManager_def loadMemoryEntries_def)

lemma recordMemoryEntry_call:
  "recordMemoryEntry cm (rec_id c) (rec_time c) (rec_query c) (rec_response c) (rec_chunks c) (rec_feedback c) =
     (case saveMemoryEntries (cm\<lparr>memoryEntries := AList.update (rec_id c) (entry_of c) (memoryEntries cm)\<rparr>) of
        Inl e \<Rightarrow> (Inl e, cm\<lparr>memoryEntries := AList.update (rec_id c) (entry_of c) (memoryEntries cm)\<rparr>)
      | Inr cm' \<Rightarrow> (Inr (entry_of c), cm'))"
  by (simp add: recordMemoryEntry_def entry_of_def Let_def split: sum.splits)

text \<open>A call that rejects: the entry is in the map, the file is as it was.\<close>

lemma record_call_rejects:
  assumes "2 \<le> length (AList.update (rec_id c) (entry_of c) (memoryEntries cm))"
    and "list_ex (\<lambda>e. getTime (timestamp e) = None)
           (map snd (AList.update (rec_id c) (entry_of c) (memoryEntries cm)))"
  shows "record_outcome c cm = Inl TypeError"
    and "memory_json (record_call c cm) = memory_json cm"
    and "memoryEntries (record_call c cm) = AList.update (rec_id c) (entry_of c) (memoryEntries cm)"
  using assms
  by (simp_all add: record_outcome_def record_call_def recordMemoryEntry_call saveMemoryEntries_def)

text \<open>A call that resolves: the file holds the newest 1000 values of the map.\<close>

lemma record_call_resolves:
  assumes "\<not> (2 \<le> length (AList.update (rec_id c) (entry_of c) (memoryEntries cm)) \<and>
              list_ex (\<lambda>e. getTime (timestamp e) = None)
                (map snd (AList.update (rec_id c) (entry_of c) (memoryEntries cm))))"
  shows "record_outcome c cm = Inr (entry_of c)"
    and "memory_json (record_call c cm) =
           Ledger (map json_entry (take maxMemoryEntries (sort_key (\<lambda>e. - instant (timestamp e))
              (map snd (AList.update (rec_id c) (entry_of c) (memoryEntries cm))))))"
    and "memoryEntries (record_call c cm) = AList.update (rec_id c) (entry_of c) (memoryEntries cm)"
  using assms
  by (auto simp: record_outcome_def record_call_def recordMemoryEntry_call saveMemoryEntries_def)

lemma record_call_entries:
  "memoryEntries (record_call c cm) = AList.update (rec_id c) (entry_of c) (memoryEntries cm)"
  using record_call_rejects(3)[of c cm] record_call_resolves(3)[of c cm] by blast

lemma instant_json_entry: "instant (timestamp (json_entry e)) = instant (timestamp e)"
  by (simp add: json_entry_def json_date_def instant_def split: date_value.splits)

lemma entry_id_json_entry: "entry_id (json_entry e) = entry_id e"
  by (simp add: json_entry_def)

lemma newest_first_saved:
  "length (map json_entry (take maxMemoryEntries (sort_key (\<lambda>e. - instant (timestamp e)) xs))) \<le> maxMemoryEntries"
  "newest_first (map json_entry (take maxMemoryEntries (sort_key (\<lambda>e. - instant (timestamp e)) xs)))"
proof -
  show "length (map json_entry (take maxMemoryEntries (sort_key (\<lambda>e. - instant (timestamp e)) xs))) \<le> maxMemoryEntries"
    by simp
  have "sorted (map (\<lambda>e. - instant (timestamp e)) (take maxMemoryEntries (sort_key (\<lambda>e. - instant (timestamp e)) xs)))"
    using sorted_wrt_take[of "(\<le>)" "map (\<lambda>e. - instant (timestamp e)) (sort_key (\<lambda>e. - instant (timestamp e)) xs)" maxMemoryEntries]
    by (simp add: take_map)
  then show "newest_first (map json_entry (take maxMemoryEntries (sort_key (\<lambda>e. - instant (timestamp e)) xs)))"
    by (simp add: newest_first_def comp_def instant_json_entry)
qed

text \<open>
  Whether a call resolves or rejects, the persisted ledger stays capped and ordered.
\<close>

lemma persisted_after_call:
  assumes "length (persisted_ledger cm) \<le> maxMemoryEntries" and "newest_first (persisted_ledger cm)"
  shows "length (persisted_ledger (record_call c cm)) \<le> maxMemoryEntries \<and>
         newest_first (persisted_ledger (record_call c cm))"
proof (cases "2 \<le> length (AList.update (rec_id c) (entry_of c) (memoryEntries cm)) \<and>
              list_ex (\<lambda>e. getTime (timestamp e) = None)
                (map snd (AList.update (rec_id c) (entry_of c) (memoryEntries cm)))")
  case True
  then have "memory_json (record_call c cm) = memory_json cm"
    using record_call_rejects(2)[of c cm] by blast
  then have "persisted_ledger (record_call c cm) = persisted_ledger cm"
    by (simp add: persisted_ledger_def)
  with assms show ?thesis by simp
next
  case False
  from record_call_resolves(2)[OF False]
  have "persisted_ledger (record_call c cm) =
          map json_entry (take maxMemoryEntries (sort_key (\<lambda>e. - instant (timestamp e))
              (map snd (AList.update (rec_id c) (entry_of c) (memoryEntries cm)))))"
    by (simp add: persisted_ledger_def)
  with newest_first_saved[of "map snd (AList.update (rec_id c) (entry_of c) (memoryEntries cm))"]
  show ?thesis by simp
qed

lemma record_all_snoc: "record_all cm (calls @ [c]) = record_call c (record_all cm calls)"
  by (simp add: record_all_def)

lemma persisted_after_calls:
  assumes "length (persisted_ledger cm) \<le> maxMemoryEntries" and "newest_first (persisted_ledger cm)"
  shows "length (persisted_ledger (record_all cm calls)) \<le> maxMemoryEntries \<and>
         newest_first (persisted_ledger (record_all cm calls))"
proof (induction calls rule: rev_induct)
  case Nil
  from assms show ?case by (simp add: record_all_def)
next
  case (snoc c calls)
  then show ?case unfolding record_all_snoc using persisted_after_call by blast
qed

lemma memoryEntries_record_all:
  "memoryEntries (record_all cm calls) =
     fold (\<lambda>(k, v) m. AList.update k v m) (map (\<lambda>c. (rec_id c, entry_of c)) calls) (memoryEntries cm)"
  unfolding record_all_def
  by (induction calls arbitrary: cm) (simp_all add: record_call_entries)

lemma memoryEntries_fresh:
  assumes "distinct (map rec_id calls)"
  shows "memoryEntries (record_all new_ledger calls) = map (\<lambda>c. (rec_id c, entry_of c)) calls"
proof -
  have "distinct (map fst (map (\<lambda>c. (rec_id c, entry_of c)) calls))"
    using assms by (simp add: comp_def)
  from fold_update_fresh[OF this, of "[]"] show ?thesis
    by (simp add: memoryEntries_record_all new_ledger_fields)
qed

lemma getTime_entry_of: "getTime (timestamp (entry_of c)) \<noteq> None"
  by (simp add: entry_of_def getTime_def)

text \<open>
  In a session that started without \<open>memory.json\<close> every timestamp in the map is a
  \<open>Date\<close>: every call with a fresh identifier resolves.
\<close>

lemma fresh_call_resolves:
  assumes "distinct (map rec_id (calls @ [c]))"
  shows "record_outcome c (record_all new_ledger calls) = Inr (entry_of c)"
    and "persisted_ledger (record_all new_ledger (calls @ [c])) =
         take maxMemoryEntries (map json_entry (sort_key (\<lambda>e. - instant (timestamp e)) (map entry_of (calls @ [c]))))"
proof -
  have m: "AList.update (rec_id c) (entry_of c) (memoryEntries (record_all new_ledger calls))
           = map (\<lambda>c. (rec_id c, entry_of c)) (calls @ [c])"
    using memoryEntries_fresh[OF assms] unfolding record_all_snoc record_call_entries .
  have "\<not> list_ex (\<lambda>e. getTime (timestamp e) = None) (map snd (map (\<lambda>c. (rec_id c, entry_of c)) (calls @ [c])))"
    by (simp add: list_ex_iff getTime_entry_of)
  then have r: "\<not> (2 \<le> length (AList.update (rec_id c) (entry_of c) (memoryEntries (record_all new_ledger calls))) \<and>
              list_ex (\<lambda>e. getTime (timestamp e) = None)
                (map snd (AList.update (rec_id c) (entry_of c) (memoryEntries (record_all new_ledger calls)))))"
    unfolding m by blast
  from record_call_resolves(1)[OF r]
  show "record_outcome c (record_all new_ledger calls) = Inr (entry_of c)" .
  from record_call_resolves(2)[OF r]
  show "persisted_ledger (record_all new_ledger (calls @ [c])) =
         take maxMemoryEntries (map json_entry (sort_key (\<lambda>e. - instant (timestamp e)) (map entry_of (calls @ [c]))))"
    unfolding record_all_snoc m by (simp add: persisted_ledger_def comp_def take_map)
qed

lemma persisted_fresh:
  assumes "distinct (map rec_id calls)" "calls \<noteq> []"
  shows "persisted_ledger (record_all new_ledger calls) =
         take maxMemoryEntries (map json_entry (sort_key (\<lambda>e. - instant (timestamp e)) (map entry_of calls)))"
proof -
  obtain cs c where calls: "calls = cs @ [c]" using assms(2) by (metis rev_exhaust)
  show ?thesis using fresh_call_resolves(2)[of cs c] assms(1) unfolding calls by blast
qed

lemma distinct_of_map: "distinct (map f xs) \<Longrightarrow> distinct xs"
  by (simp add: distinct_map)

lemma entry_id_entry_of: "entry_id (entry_of c) = rec_id c"
  by (simp add: entry_of_def)

lemma distinct_entries:
  assumes "distinct (map rec_id calls)"
  shows "distinct (map (\<lambda>c. json_entry (entry_of c)) calls)"
proof -
  have "distinct (map entry_id (map (\<lambda>c. json_entry (entry_of c)) calls))"
    using assms by (simp add: comp_def entry_id_entry_of entry_id_json_entry)
  then show ?thesis by (rule distinct_of_map)
qed

lemma timestamp_entry_of: "instant (timestamp (entry_of c)) = rec_time c"
  by (simp add: entry_of_def instant_def)

lemma sorted_last_max:
  "sorted (map f xs) \<Longrightarrow> x \<in> set xs \<Longrightarrow> f x \<le> f (last xs)"
  by (induction xs) (auto split: if_splits)

lemma set_butlast_distinct:
  assumes "distinct xs" "xs \<noteq> []"
  shows "set (butlast xs) = set xs - {last xs}"
proof -
  have xs: "xs = butlast xs @ [last xs]" using assms(2) by simp
  have "distinct (butlast xs @ [last xs])" using assms(1) xs by simp
  then have "last xs \<notin> set (butlast xs)" by simp
  moreover have "set xs = set (butlast xs) \<union> {last xs}"
    using xs by (metis set_append list.simps(15) empty_set)
  ultimately show ?thesis by auto
qed

lemma ledger_cap:
  assumes d: "distinct (map rec_id calls)" and n: "length calls = Suc maxMemoryEntries"
  shows "length (persisted_ledger (record_all new_ledger calls)) = maxMemoryEntries \<and>
         (\<exists>old \<in> set calls.
             rec_id old \<notin> entry_id ` set (persisted_ledger (record_all new_ledger calls)) \<and>
             set (persisted_ledger (record_all new_ledger calls)) =
               (\<lambda>c. json_entry (entry_of c)) ` (set calls - {old}) \<and>
             (\<forall>c \<in> set calls. rec_time old \<le> rec_time c))"
proof -
  let ?srt = "sort_key (\<lambda>e. - instant (timestamp e)) (map entry_of calls)"
  let ?xs = "map json_entry ?srt"
  have ne: "calls \<noteq> []" using n by auto
  have p: "persisted_ledger (record_all new_ledger calls) = take maxMemoryEntries ?xs"
    by (rule persisted_fresh[OF d ne])
  have len: "length ?xs = Suc maxMemoryEntries" using n by simp
  have xs_ne: "?xs \<noteq> []"
  proof
    assume "?xs = []"
    then have "length ?xs = 0" by simp
    with len show False by simp
  qed
  have srt_ne: "?srt \<noteq> []" using xs_ne by simp
  have bl: "take maxMemoryEntries ?xs = butlast ?xs"
    using len by (simp add: butlast_conv_take)
  have set_xs: "set ?xs = (\<lambda>c. json_entry (entry_of c)) ` set calls" by auto
  have inj2: "inj_on (\<lambda>c. json_entry (entry_of c)) (set calls)"
    using distinct_entries[OF d] d by (metis distinct_map)
  have "distinct (map json_entry (map entry_of calls))"
    using distinct_entries[OF d] by (simp add: comp_def)
  then have "distinct (map entry_of calls)" by (rule distinct_of_map)
  then have dsrt: "distinct ?srt" by simp
  have "inj_on json_entry (entry_of ` set calls)"
    using inj2 by (auto simp: inj_on_def)
  then have "inj_on json_entry (set ?srt)" by simp
  with dsrt have dx: "distinct ?xs" by (simp add: distinct_map)
  have "last ?srt \<in> set ?srt" using srt_ne by (rule last_in_set)
  then obtain old where old: "old \<in> set calls" "entry_of old = last ?srt" by auto
  have last_xs: "last ?xs = json_entry (entry_of old)"
    using srt_ne old(2) by (simp add: last_map)
  have sb: "set (butlast ?xs) = set ?xs - {last ?xs}"
    by (rule set_butlast_distinct[OF dx xs_ne])
  have inj: "inj_on rec_id (set calls)"
    using d by (simp add: distinct_map)
  have 2: "set (butlast ?xs) = (\<lambda>c. json_entry (entry_of c)) ` (set calls - {old})"
    unfolding sb set_xs last_xs using old(1) inj2 by (auto simp: inj_on_def)
  have 1: "rec_id old \<notin> entry_id ` set (butlast ?xs)"
  proof
    assume "rec_id old \<in> entry_id ` set (butlast ?xs)"
    then obtain c where c: "c \<in> set calls - {old}" "rec_id old = entry_id (json_entry (entry_of c))"
      unfolding 2 by auto
    then have "rec_id old = rec_id c" by (simp add: entry_id_json_entry entry_id_entry_of)
    with inj old(1) c(1) show False by (auto simp: inj_on_def)
  qed
  have 3: "\<forall>c \<in> set calls. rec_time old \<le> rec_time c"
  proof
    fix c assume "c \<in> set calls"
    then have "entry_of c \<in> set ?srt" by simp
    from sorted_last_max[OF sorted_sort_key this]
    show "rec_time old \<le> rec_time c" by (simp add: old(2)[symmetric] timestamp_entry_of)
  qed
  show ?thesis using p bl len 1 2 3 old(1) by auto
qed

lemma oldest_is_first:
  assumes "sorted_wrt (<) (map rec_time calls)" "old \<in> set calls" "calls \<noteq> []"
    and "\<forall>c \<in> set calls. rec_time old \<le> rec_time c"
  shows "old = hd calls"
proof (rule ccontr)
  assume neq: "old \<noteq> hd calls"
  obtain c cs where calls: "calls = c # cs" using assms(3) by (cases calls) auto
  then have "old \<in> set cs" using assms(2) neq by auto
  then have "rec_time c < rec_time old" using assms(1) calls by auto
  moreover have "rec_time old \<le> rec_time c" using assms(4) calls by simp
  ultimately show False by simp
qed

text \<open>
  The ledger cap.  Whatever the context manager holds, a call of \<open>recordMemoryEntry\<close>,
  resolved or rejected, leaves a persisted ledger of at most 1000 entries ordered
  newest first as such.  In a session that started without \<open>memory.json\<close>, every one
  of 1001 recordings with fresh identifiers resolves, and after them the persisted
  ledger has exactly 1000 entries: all recorded entries but one, and the missing one
  is an oldest entry (no recorded entry has an earlier timestamp); when the
  timestamps increase from call to call, it is the entry recorded first.
\<close>

lemma ledger_capped:
  "(length (persisted_ledger cm) \<le> 1000 \<and> newest_first (persisted_ledger cm) \<longrightarrow>
      length (persisted_ledger (record_all cm calls)) \<le> 1000 \<and>
      newest_first (persisted_ledger (record_all cm calls))) \<and>
   (distinct (map rec_id recs) \<and> length recs = 1001 \<longrightarrow>
      record_outcome (last recs) (record_all new_ledger (butlast recs)) = Inr (entry_of (last recs)) \<and>
      length (persisted_ledger (record_all new_ledger recs)) = 1000 \<and>
      newest_first (persisted_ledger (record_all new_ledger recs)) \<and>
      (\<exists>old \<in> set recs.
          rec_id old \<notin> entry_id ` set (persisted_ledger (record_all new_ledger recs)) \<and>
          set (persisted_ledger (record_all new_ledger recs)) =
            (\<lambda>c. json_entry (entry_of c)) ` (set recs - {old}) \<and>
          (\<forall>c \<in> set recs. rec_time old \<le> rec_time c)) \<and>
      (sorted_wrt (<) (map rec_time recs) \<longrightarrow>
          rec_id (hd recs) \<notin> entry_id ` set (persisted_ledger (record_all new_ledger recs))))"
proof (intro conjI impI)
  assume "length (persisted_ledger cm) \<le> 1000 \<and> newest_first (persisted_ledger cm)"
  then have "length (persisted_ledger cm) \<le> maxMemoryEntries" "newest_first (persisted_ledger cm)"
    by (simp_all add: maxMemoryEntries_def)
  from persisted_after_calls[OF this, of calls]
  show "length (persisted_ledger (record_all cm calls)) \<le> 1000"
    and "newest_first (persisted_ledger (record_all cm calls))"
    by (simp_all add: maxMemoryEntries_def)
next
  assume a: "distinct (map rec_id recs) \<and> length recs = 1001"
  then have d: "distinct (map rec_id recs)" and n: "length recs = Suc maxMemoryEntries"
    by (simp_all add: maxMemoryEntries_def)
  have ne: "recs \<noteq> []" using n by auto
  then have recs: "recs = butlast recs @ [last recs]" by simp
  from fresh_call_resolves(1)[of "butlast recs" "last recs"] d recs
  show "record_outcome (last recs) (record_all new_ledger (butlast recs)) = Inr (entry_of (last recs))"
    by simp
  note cap = ledger_cap[OF d n]
  show "length (persisted_ledger (record_all new_ledger recs)) = 1000"
    using cap by (simp add: maxMemoryEntries_def)
  have "length (persisted_ledger new_ledger) \<le> maxMemoryEntries" "newest_first (persisted_ledger new_ledger)"
    by (simp_all add: persisted_ledger_def new_ledger_fields newest_first_def)
  from persisted_after_calls[OF this, of recs]
  show "newest_first (persisted_ledger (record_all new_ledger recs))" by simp
  show "\<exists>old \<in> set recs.
          rec_id old \<notin> entry_id ` set (persisted_ledger (record_all new_ledger recs)) \<and>
          set (persisted_ledger (record_all new_ledger recs)) =
            (\<lambda>c. json_entry (entry_of c)) ` (set recs - {old}) \<and>
          (\<forall>c \<in> set recs. rec_time old \<le> rec_time c)"
    using cap by blast
  assume s: "sorted_wrt (<) (map rec_time recs)"
  from cap obtain old where old: "old \<in> set recs"
    "rec_id old \<notin> entry_id ` set (persisted_ledger (record_all new_ledger recs))"
    "\<forall>c \<in> set recs. rec_time old \<le> rec_time c" by blast
  from oldest_is_first[OF s old(1) ne old(3)] old(2)
  show "rec_id (hd recs) \<notin> entry_id ` set (persisted_ledger (record_all new_ledger recs))" by simp
qed

lemma example_recordings_props:
  "example_recordings \<noteq> []" "length example_recordings = 1001"
  "distinct (map rec_id example_recordings)"
  "sorted_wrt (<) (map rec_time example_recordings)"
proof -
  show "length example_recordings = 1001" by (simp add: example_recordings_def)
  then show "example_recordings \<noteq> []" by auto
  have "map rec_id example_recordings = map (\<lambda>n. replicate n (CHR ''i'')) [0..<1001]"
    by (simp add: example_recordings_def example_recording_def comp_def)
  moreover have "inj_on (\<lambda>n. replicate n (CHR ''i'')) (set [0..<1001])"
    by (rule inj_onI) (metis length_replicate)
  ultimately show "distinct (map rec_id example_recordings)"
    by (simp add: distinct_map)
  have "map rec_time example_recordings = map int [0..<1001]"
    by (simp add: example_recordings_def example_recording_def comp_def)
  then show "sorted_wrt (<) (map rec_time example_recordings)"
    by (simp add: sorted_wrt_map sorted_wrt_upt)
qed

lemma ledger_capped_example:
  "length example_recordings = 1001 \<and>
   length (persisted_ledger (record_all new_ledger example_recordings)) = 1000 \<and>
   newest_first (persisted_ledger (record_all new_ledger example_recordings)) \<and>
   rec_id (hd example_recordings) \<notin> entry_id ` set (persisted_ledger (record_all new_ledger example_recordings))"
  using ledger_capped[of new_ledger "[]" example_recordings] example_recordings_props
  by blast

text \<open>
  After a restart.  A map that holds an entry read from \<open>memory.json\<close> keeps it under
  every recording with another identifier; each such call rejects with a
  \<open>TypeError\<close> and leaves the file as it was.
\<close>

lemma update_keeps_other:
  "(k0, e0) \<in> set m \<Longrightarrow> k \<noteq> k0 \<Longrightarrow> (k0, e0) \<in> set (AList.update k v m)"
  by (induction m) auto

lemma update_holds_new: "(k, v) \<in> set (AList.update k v m)"
  by (induction m) auto

lemma two_members: "x \<in> set xs \<Longrightarrow> y \<in> set xs \<Longrightarrow> x \<noteq> y \<Longrightarrow> 2 \<le> length xs"
proof (cases xs)
  case Nil
  assume "x \<in> set xs" with Nil show ?thesis by simp
next
  case (Cons a ys)
  assume "x \<in> set xs" "y \<in> set xs" "x \<noteq> y"
  with Cons have "ys \<noteq> []" by auto
  with Cons show ?thesis by (cases ys) auto
qed

lemma record_call_after_restart:
  assumes "(k0, e0) \<in> set (memoryEntries cm)" and "getTime (timestamp e0) = None"
    and "rec_id c \<noteq> k0"
  shows "record_outcome c cm = Inl TypeError"
    and "memory_json (record_call c cm) = memory_json cm"
    and "(k0, e0) \<in> set (memoryEntries (record_call c cm))"
proof -
  let ?m = "AList.update (rec_id c) (entry_of c) (memoryEntries cm)"
  have old: "(k0, e0) \<in> set ?m" using assms(1,3) by (rule update_keeps_other)
  have new: "(rec_id c, entry_of c) \<in> set ?m" by (rule update_holds_new)
  have "(k0, e0) \<noteq> (rec_id c, entry_of c)" using assms(3) by auto
  from two_members[OF old new this] have 1: "2 \<le> length ?m" .
  have "e0 \<in> set (map snd ?m)" using old by force
  with assms(2) have 2: "list_ex (\<lambda>e. getTime (timestamp e) = None) (map snd ?m)"
    unfolding list_ex_iff by blast
  from record_call_rejects[OF 1 2]
  show "record_outcome c cm = Inl TypeError"
    and "memory_json (record_call c cm) = memory_json cm"
    and "(k0, e0) \<in> set (memoryEntries (record_call c cm))"
    using old by simp_all
qed

lemma record_all_after_restart:
  assumes "(k0, e0) \<in> set (memoryEntries cm)" and "getTime (timestamp e0) = None"
    and "k0 \<notin> rec_id ` set calls"
  shows "memory_json (record_all cm calls) = memory_json cm \<and>
         (k0, e0) \<in> set (memoryEntries (record_all cm calls))"
  using assms(3)
proof (induction calls rule: rev_induct)
  case Nil
  from assms(1) show ?case by (simp add: record_all_def)
next
  case (snoc c calls)
  then have ih: "memory_json (record_all cm calls) = memory_json cm"
    "(k0, e0) \<in> set (memoryEntries (record_all cm calls))" and c: "rec_id c \<noteq> k0"
    by auto
  from record_call_after_restart(2,3)[OF ih(2) assms(2) c] ih(1)
  show ?case unfolding record_all_snoc by simp
qed

lemma restarted_ledger_fields:
  "memory_json restarted_ledger = Ledger [json_entry (entry_of earlier_recording)]"
  "memoryEntries restarted_ledger = [(''a'', json_entry (entry_of earlier_recording))]"
proof -
  have r: "\<not> (2 \<le> length (AList.update (rec_id earlier_recording) (entry_of earlier_recording) (memoryEntries new_ledger)) \<and>
              list_ex (\<lambda>e. getTime (timestamp e) = None)
                (map snd (AList.update (rec_id earlier_recording) (entry_of earlier_recording) (memoryEntries new_ledger))))"
    by (simp add: new_ledger_fields)
  from record_call_resolves(2)[OF r]
  have f: "memory_json (record_call earlier_recording new_ledger) = Ledger [json_entry (entry_of earlier_recording)]"
    by (simp add: new_ledger_fields maxMemoryEntries_def)
  show "memory_json restarted_ledger = Ledger [json_entry (entry_of earlier_recording)]"
    by (simp add: restarted_ledger_def new_ContextManager_def loadMemoryEntries_def f)
  have i: "entry_id (json_entry (entry_of earlier_recording)) = ''a''"
    by (simp add: entry_id_json_entry entry_id_entry_of earlier_recording_def)
  show "memoryEntries restarted_ledger = [(''a'', json_entry (entry_of earlier_recording))]"
    by (simp add: restarted_ledger_def new_ContextManager_def loadMemoryEntries_def f i)
qed

text \<open>
  Claim C3 holds that after recording 1001 entries the persisted ledger has exactly
  1000 entries.  The code departs from it in every session that starts on a
  \<open>memory.json\<close> holding an entry: the entries loaded from the file have strings as
  timestamps, so from the first recording on the sort in \<open>saveMemoryEntries\<close> throws
  and the file is never written again.  For the context manager constructed on the
  file that one earlier recording has left, the first of 1001 recordings rejects
  with a \<open>TypeError\<close>, and after all of them the persisted ledger still is that one
  entry.
\<close>

theorem record_after_restart:
  "persisted_ledger restarted_ledger = [json_entry (entry_of earlier_recording)] \<and>
   timestamp (json_entry (entry_of earlier_recording)) = DateISOString (- 1) \<and>
   length example_recordings = 1001 \<and>
   distinct (map rec_id example_recordings) \<and>
   record_outcome (hd example_recordings) restarted_ledger = Inl TypeError \<and>
   persisted_ledger (record_all restarted_ledger example_recordings) =
     [json_entry (entry_of earlier_recording)] \<and>
   length (persisted_ledger (record_all restarted_ledger example_recordings)) = 1"
proof -
  let ?e = "json_entry (entry_of earlier_recording)"
  have t: "timestamp ?e = DateISOString (- 1)"
    by (simp add: json_entry_def entry_of_def earlier_recording_def json_date_def)
  then have g: "getTime (timestamp ?e) = None" by (simp add: getTime_def)
  have m: "(''a'', ?e) \<in> set (memoryEntries restarted_ledger)"
    by (simp add: restarted_ledger_fields)
  have ne: "''a'' \<noteq> replicate n (CHR ''i'')" for n
    by (cases n) simp_all
  have ids: "''a'' \<notin> rec_id ` set example_recordings"
  proof
    assume "''a'' \<in> rec_id ` set example_recordings"
    then obtain n where "''a'' = replicate n (CHR ''i'')"
      by (auto simp: example_recordings_def example_recording_def)
    with ne show False by blast
  qed
  have "hd example_recordings \<in> set example_recordings"
    using example_recordings_props(1) by (rule hd_in_set)
  with ids have "rec_id (hd example_recordings) \<noteq> ''a''" by (metis image_eqI)
  from record_call_after_restart(1)[OF m g this]
  have 1: "record_outcome (hd example_recordings) restarted_ledger = Inl TypeError" .
  from record_all_after_restart[OF m g ids]
  have "memory_json (record_all restarted_ledger example_recordings) = memory_json restarted_ledger"
    by blast
  then have 2: "persisted_ledger (record_all restarted_ledger example_recordings) = [?e]"
    by (simp add: persisted_ledger_def restarted_ledger_fields)
  have 3: "persisted_ledger restarted_ledger = [?e]"
    by (simp add: persisted_ledger_def restarted_ledger_fields)
  show ?thesis using 1 2 3 t example_recordings_props(2,3) by simp
qed

section \<open>Persistence round trip\<close>

lemma chunks_reloaded:
  assumes "distinct (map fst (chunks s))"
  shows "chunks (reloaded s) =
         map (\<lambda>(id, stored). (id, \<lparr>chunk = json_chunk (chunk stored), embedding = embedding stored\<rparr>)) (chunks s)"
proof -
  let ?item = "\<lambda>(id, stored). \<lparr>item_id = id, item_chunk = json_chunk (chunk stored),
                                item_embedding = embedding stored\<rparr>"
  let ?kv = "map (\<lambda>(id, stored). (id, \<lparr>chunk = json_chunk (chunk stored), embedding = embedding stored\<rparr>)) (chunks s)"
  have f: "fold (\<lambda>item m. AList.update (item_id item)
                    \<lparr>chunk = item_chunk item, embedding = item_embedding item\<rparr> m) (map ?item xs) acc
       = fold (\<lambda>(k, v) m. AList.update k v m)
           (map (\<lambda>(id, stored). (id, \<lparr>chunk = json_chunk (chunk stored), embedding = embedding stored\<rparr>)) xs) acc"
    for xs acc
    by (induction xs arbitrary: acc) auto
  have d: "distinct (map fst ?kv)" using assms by (simp add: case_prod_beta comp_def)
  have "chunks (reloaded s) = fold (\<lambda>item m. AList.update (item_id item)
                    \<lparr>chunk = item_chunk item, embedding = item_embedding item\<rparr> m) (map ?item (chunks s)) []"
    by (simp add: reloaded_def new_MemoryVectorStore_def loadFromDisk_def saveToDisk_def)
  also have "\<dots> = fold (\<lambda>(k, v) m. AList.update k v m) ?kv []"
    by (rule f)
  also have "\<dots> = [] @ ?kv" by (rule fold_update_fresh[OF d]) simp
  finally show ?thesis by simp
qed

lemma chunks_store_x:
  "chunks store_x = [(''c'', \<lparr>chunk = chunk_x, embedding = fst (generate new_EmbeddingGenerator (createChunkText chunk_x))\<rparr>)]"
  by (simp add: store_x_def updateChunk_eq saveToDisk_fields chunks_empty_store generator_empty_store chunk_x_def)

text \<open>
  What does survive a save and a reload, for a store whose keys are distinct (as the
  keys of a \<open>Map\<close> are): the ids in their order, the embeddings, and every field of
  every chunk except \<open>metadata.lastModified\<close>, which comes back as the ISO string of
  the date.
\<close>

lemma reload_roundtrip:
  "distinct (map fst (chunks s)) \<Longrightarrow>
   map fst (chunks (reloaded s)) = map fst (chunks s) \<and>
   map (\<lambda>(id, stored). embedding stored) (chunks (reloaded s)) =
     map (\<lambda>(id, stored). embedding stored) (chunks s) \<and>
   map (\<lambda>(id, stored). chunk stored) (chunks (reloaded s)) =
     map (\<lambda>(id, stored).
            (chunk stored)\<lparr>metadata := (metadata (chunk stored))
               \<lparr>lastModified := map_option json_date (lastModified (metadata (chunk stored)))\<rparr>\<rparr>)
         (chunks s)"
  by (simp add: chunks_reloaded case_prod_beta comp_def json_chunk_def)

lemma reload_roundtrip_example:
  "distinct (map fst (chunks store_x)) \<and>
   map fst (chunks (reloaded store_x)) = [''c''] \<and>
   map (\<lambda>(id, stored). embedding stored) (chunks (reloaded store_x)) =
     [fst (generate new_EmbeddingGenerator (createChunkText chunk_x))] \<and>
   map (\<lambda>(id, stored). chunk stored) (chunks (reloaded store_x)) =
     [chunk_x\<lparr>metadata := no_metadata\<lparr>lastModified := Some (DateISOString 0)\<rparr>\<rparr>]"
proof -
  have h: "distinct (map fst (chunks store_x))" by (simp add: chunks_store_x)
  from reload_roundtrip[OF h] h show ?thesis
    by (simp add: chunks_store_x json_date_def chunk_x_def no_metadata_def)
qed

text \<open>
  Claim C5 fails on the code.  The indexer gives every chunk a \<open>lastModified\<close> date;
  the store holding such a chunk (here \<open>store_x\<close>) is saved and reloaded, and the
  reloaded chunk carries the ISO string of the date where the original carries the
  date object, so the reloaded map is not the map that was saved.
\<close>

theorem reload_changes_lastModified:
  "map (\<lambda>(id, stored). lastModified (metadata (chunk stored))) (chunks store_x) = [Some (DateObject 0)] \<and>
   map (\<lambda>(id, stored). lastModified (metadata (chunk stored))) (chunks (reloaded store_x)) = [Some (DateISOString 0)] \<and>
   chunks (reloaded store_x) \<noteq> chunks store_x"
proof -
  have h: "distinct (map fst (chunks store_x))" by (simp add: chunks_store_x)
  show ?thesis
    by (simp add: chunks_reloaded[OF h] chunks_store_x json_chunk_def json_date_def chunk_x_def no_metadata_def)
qed

section \<open>Validity of embeddings\<close>

lemma length_array_set: "i < length v \<Longrightarrow> length (array_set v i x) = length v"
  by (simp add: array_set_def)

lemma hashedIndex_less: "hashedIndex token < dimension"
  by (simp add: hashedIndex_def dimension_def nat_less_iff)

lemma length_tfidf_step:
  "length v = dimension \<Longrightarrow> length (tfidf_step g p v) = dimension"
  by (cases p) (simp add: tfidf_step_def Let_def length_array_set hashedIndex_less split: option.splits)

lemma length_fold_tfidf:
  "length v = dimension \<Longrightarrow> length (fold (tfidf_step g) tf v) = dimension"
  by (induction tf arbitrary: v) (simp_all add: length_tfidf_step)

lemma length_fold_guarded:
  assumes "\<And>p v. length v = dimension \<Longrightarrow> length (f p v) = dimension" "length v = dimension"
  shows "length (fold f ps v) = dimension"
  using assms(2) by (induction ps arbitrary: v) (simp_all add: assms(1))

lemma length_addSemanticFeatures:
  assumes "length v = dimension"
  shows "length (addSemanticFeatures text v) = dimension"
  unfolding addSemanticFeatures_def Let_def
  by (intro length_fold_guarded assms)
     (auto simp: length_array_set split: option.splits prod.splits)

lemma sum_squares_nonneg: "0 \<le> (\<Sum>x\<leftarrow>v. x * (x::real))"
  by (rule sum_list_nonneg) auto

lemma sum_squares_zero: "(\<Sum>x\<leftarrow>v. x * x) = (0::real) \<longleftrightarrow> (\<forall>x \<in> set v. x = 0)"
proof (induction v)
  case Nil
  then show ?case by simp
next
  case (Cons a v)
  have "a * a + (\<Sum>x\<leftarrow>v. x * x) = 0 \<longleftrightarrow> a * a = 0 \<and> (\<Sum>x\<leftarrow>v. x * x) = 0"
    by (rule add_nonneg_eq_0_iff) (simp_all add: sum_squares_nonneg)
  then show ?case using Cons.IH by simp
qed

lemma sum_squares_scaled:
  "(\<Sum>x\<leftarrow>map (\<lambda>val. val / m) v. x * x) = (\<Sum>x\<leftarrow>v. x * x) / (m * m :: real)"
  by (induction v) (simp_all add: add_divide_distrib)

lemma normalized_or_zero:
  "l2_normalized (if magnitude_of v > 0 then map (\<lambda>val. val / magnitude_of v) v else v) \<or>
   all_zero (if magnitude_of v > 0 then map (\<lambda>val. val / magnitude_of v) v else v)"
proof (cases "magnitude_of v > 0")
  case True
  let ?S = "\<Sum>x\<leftarrow>v. x * x"
  have m2: "magnitude_of v * magnitude_of v = ?S"
    by (simp add: magnitude_of_def sum_squares_nonneg)
  have "?S > 0" using True m2 by (metis mult_pos_pos)
  then have "(\<Sum>x\<leftarrow>map (\<lambda>val. val / magnitude_of v) v. x * x) = 1"
    unfolding sum_squares_scaled m2 by simp
  then show ?thesis using True by (simp add: l2_normalized_def)
next
  case False
  have "magnitude_of v \<ge> 0" by (simp add: magnitude_of_def sum_squares_nonneg)
  with False have "magnitude_of v = 0" by simp
  then have "(\<Sum>x\<leftarrow>v. x * x) = 0" by (simp add: magnitude_of_def)
  then have "\<forall>x \<in> set v. x = 0" by (simp add: sum_squares_zero)
  then have "v = replicate (length v) 0" by (simp add: replicate_length_same)
  then show ?thesis using False by (simp add: all_zero_def)
qed

lemma length_textToVector: "length (textToVector g text) = dimension"
  by (simp add: textToVector_def Let_def length_addSemanticFeatures length_fold_tfidf)

lemma valid_textToVector: "valid_embedding (textToVector g text)"
proof -
  have "length (textToVector g text) = 384"
    using length_textToVector by (simp add: dimension_def)
  moreover have "l2_normalized (textToVector g text) \<or> all_zero (textToVector g text)"
    unfolding textToVector_def Let_def by (rule normalized_or_zero)
  ultimately show ?thesis by (simp add: valid_embedding_def)
qed

lemma valid_generate: "valid_embedding (fst (generate g text))"
  by (simp add: generate_def Let_def valid_textToVector)

lemma valid_generateBatch: "e \<in> set (fst (generateBatch g texts)) \<Longrightarrow> valid_embedding e"
  by (auto simp: generateBatch_def Let_def valid_textToVector)

lemma values_update: "set (map snd (AList.update k v m)) \<subseteq> insert v (set (map snd m))"
  by (induction m) auto

lemma values_delete: "set (map snd (AList.delete k m)) \<subseteq> set (map snd m)"
  by (induction m) auto

lemma values_fold_update:
  "set (map snd (fold (\<lambda>p m. AList.update (key p) (val p) m) ps m)) \<subseteq> val ` set ps \<union> set (map snd m)"
proof (induction ps arbitrary: m)
  case Nil
  then show ?case by simp
next
  case (Cons p ps)
  have "set (map snd (fold (\<lambda>p m. AList.update (key p) (val p) m) ps (AList.update (key p) (val p) m)))
        \<subseteq> val ` set ps \<union> set (map snd (AList.update (key p) (val p) m))"
    by (rule Cons.IH)
  also have "\<dots> \<subseteq> val ` set ps \<union> insert (val p) (set (map snd m))"
    using values_update[of "key p" "val p" m] by blast
  finally show ?case by auto
qed

lemma values_fold_delete:
  "set (map snd (fold (\<lambda>id m. AList.delete id m) ids m)) \<subseteq> set (map snd m)"
proof (induction ids arbitrary: m)
  case Nil
  then show ?case by simp
next
  case (Cons i ids)
  have "set (map snd (fold (\<lambda>id m. AList.delete id m) ids (AList.delete i m)))
        \<subseteq> set (map snd (AList.delete i m))"
    by (rule Cons.IH)
  then show ?case using values_delete[of i m] by auto
qed

lemma image_subset_insert: "A \<subseteq> insert v B \<Longrightarrow> f ` A \<subseteq> insert (f v) (f ` B)"
  by auto

lemma image_subset_union: "A \<subseteq> g ` C \<union> B \<Longrightarrow> f ` A \<subseteq> (f \<circ> g) ` C \<union> f ` B"
  by auto

lemma stored_embeddings_conv: "set (stored_embeddings s) = embedding ` set (map snd (chunks s))"
  by (auto simp: stored_embeddings_def case_prod_beta image_iff)

lemma disk_embeddings_saveToDisk:
  "disk_embeddings (disk (saveToDisk s)) = stored_embeddings s"
  by (simp add: saveToDisk_def disk_embeddings_def stored_embeddings_def case_prod_beta comp_def)

lemma stored_embeddings_saveToDisk: "stored_embeddings (saveToDisk s) = stored_embeddings s"
  by (simp add: stored_embeddings_def saveToDisk_fields)

lemma embeddings_ok_saveToDisk:
  assumes "\<forall>e \<in> set (stored_embeddings s). valid_embedding e"
  shows "embeddings_ok (saveToDisk s)"
  using assms
  by (simp add: embeddings_ok_def disk_embeddings_saveToDisk stored_embeddings_saveToDisk)

lemma embeddings_ok_new:
  assumes "\<forall>e \<in> set (disk_embeddings file). valid_embedding e"
  shows "embeddings_ok (new_MemoryVectorStore file)"
proof (cases "file")
  case (Snapshot items)
  let ?s = "new_MemoryVectorStore file"
  have c: "chunks ?s = fold (\<lambda>item m. AList.update (item_id item)
              \<lparr>chunk = item_chunk item, embedding = item_embedding item\<rparr> m) items []"
    and d: "disk ?s = file"
    by (simp_all add: new_MemoryVectorStore_def loadFromDisk_def Snapshot)
  have "set (map snd (chunks ?s)) \<subseteq>
          (\<lambda>item. \<lparr>chunk = item_chunk item, embedding = item_embedding item\<rparr>) ` set items
            \<union> set (map snd ([] :: (string \<times> StoredChunk) list))"
    unfolding c by (rule values_fold_update)
  from image_subset_union[OF this, of embedding]
  have "set (stored_embeddings ?s) \<subseteq> item_embedding ` set items"
    unfolding stored_embeddings_conv by (simp add: comp_def)
  then have "set (stored_embeddings ?s) \<subseteq> set (disk_embeddings file)"
    by (simp add: disk_embeddings_def Snapshot)
  then show ?thesis using assms by (auto simp: embeddings_ok_def d)
qed (simp_all add: embeddings_ok_def new_MemoryVectorStore_def loadFromDisk_def
       stored_embeddings_def disk_embeddings_def)

lemma addChunks_eq:
  "addChunks s cs =
     Inr (saveToDisk
       (s\<lparr>chunks := fold (\<lambda>p m. AList.update (chunk_id (fst p)) \<lparr>chunk = fst p, embedding = snd p\<rparr> m)
                      (zip cs (fst (generateBatch (embeddingGenerator s) (map createChunkText cs))))
                      (chunks s),
          embeddingGenerator := snd (generateBatch (embeddingGenerator s) (map createChunkText cs))\<rparr>))"
  by (simp add: addChunks_def case_prod_unfold Let_def)

lemma embeddings_ok_addChunks:
  assumes "embeddings_ok s" "addChunks s cs = Inr s'"
  shows "embeddings_ok s'"
proof -
  let ?es = "fst (generateBatch (embeddingGenerator s) (map createChunkText cs))"
  let ?m = "fold (\<lambda>p m. AList.update (chunk_id (fst p)) \<lparr>chunk = fst p, embedding = snd p\<rparr> m)
                      (zip cs ?es) (chunks s)"
  have s': "s' = saveToDisk (s\<lparr>chunks := ?m,
          embeddingGenerator := snd (generateBatch (embeddingGenerator s) (map createChunkText cs))\<rparr>)"
    using assms(2) by (simp add: addChunks_eq)
  have "set (map snd ?m) \<subseteq> (\<lambda>p. \<lparr>chunk = fst p, embedding = snd p\<rparr>) ` set (zip cs ?es) \<union> set (map snd (chunks s))"
    by (rule values_fold_update)
  from image_subset_union[OF this, of embedding]
  have "embedding ` set (map snd ?m) \<subseteq> snd ` set (zip cs ?es) \<union> embedding ` set (map snd (chunks s))"
    by (simp add: comp_def)
  moreover have "snd ` set (zip cs ?es) \<subseteq> set ?es"
    by (auto dest: set_zip_rightD)
  ultimately have "embedding ` set (map snd ?m) \<subseteq> set ?es \<union> embedding ` set (map snd (chunks s))"
    by blast
  moreover have "\<forall>e \<in> set ?es. valid_embedding e" using valid_generateBatch by blast
  moreover have "\<forall>e \<in> embedding ` set (map snd (chunks s)). valid_embedding e"
    using assms(1) by (simp add: embeddings_ok_def stored_embeddings_conv)
  ultimately have "\<forall>e \<in> embedding ` set (map snd ?m). valid_embedding e" by blast
  then show ?thesis unfolding s'
    by (intro embeddings_ok_saveToDisk) (simp add: stored_embeddings_conv)
qed

lemma embeddings_ok_updateChunk:
  assumes "embeddings_ok s" "updateChunk s c = Inr s'"
  shows "embeddings_ok s'"
proof -
  let ?e = "fst (generate (embeddingGenerator s) (createChunkText c))"
  let ?m = "AList.update (chunk_id c) \<lparr>chunk = c, embedding = ?e\<rparr> (chunks s)"
  have s': "s' = saveToDisk (s\<lparr>chunks := ?m,
                 embeddingGenerator := snd (generate (embeddingGenerator s) (createChunkText c))\<rparr>)"
    using assms(2) unfolding updateChunk_eq by (simp only: sum.inject)
  have "set (map snd ?m) \<subseteq> insert \<lparr>chunk = c, embedding = ?e\<rparr> (set (map snd (chunks s)))"
    by (rule values_update)
  then have sub: "embedding ` set (map snd ?m)
      \<subseteq> insert (embedding \<lparr>chunk = c, embedding = ?e\<rparr>) (embedding ` set (map snd (chunks s)))"
    by (rule image_subset_insert)
  have v: "valid_embedding (embedding \<lparr>chunk = c, embedding = ?e\<rparr>)"
    using valid_generate[of "embeddingGenerator s" "createChunkText c"] by simp
  have old: "\<forall>e \<in> embedding ` set (map snd (chunks s)). valid_embedding e"
    using assms(1) by (simp add: embeddings_ok_def stored_embeddings_conv)
  have "\<forall>e \<in> embedding ` set (map snd ?m). valid_embedding e"
  proof
    fix e assume "e \<in> embedding ` set (map snd ?m)"
    with sub have "e \<in> insert (embedding \<lparr>chunk = c, embedding = ?e\<rparr>) (embedding ` set (map snd (chunks s)))"
      by (rule subsetD)
    then show "valid_embedding e" using v old by (elim insertE) (simp_all only:)
  qed
  then show ?thesis unfolding s'
    by (intro embeddings_ok_saveToDisk) (simp add: stored_embeddings_conv)
qed

lemma embeddings_ok_deleteChunks:
  assumes "embeddings_ok s" "deleteChunks s ids = Inr s'"
  shows "embeddings_ok s'"
proof -
  let ?m = "fold (\<lambda>id m. AList.delete id m) ids (chunks s)"
  have s': "s' = saveToDisk (s\<lparr>chunks := ?m\<rparr>)"
    using assms(2) by (simp add: deleteChunks_def)
  have "set (map snd ?m) \<subseteq> set (map snd (chunks s))" by (rule values_fold_delete)
  then have "embedding ` set (map snd ?m) \<subseteq> embedding ` set (map snd (chunks s))"
    by (rule image_mono)
  moreover have "\<forall>e \<in> embedding ` set (map snd (chunks s)). valid_embedding e"
    using assms(1) by (simp add: embeddings_ok_def stored_embeddings_conv)
  ultimately have "\<forall>e \<in> embedding ` set (map snd ?m). valid_embedding e" by blast
  then show ?thesis unfolding s'
    by (intro embeddings_ok_saveToDisk) (simp add: stored_embeddings_conv)
qed

lemma search_eq:
  "search s q k = Inr (results, s') \<Longrightarrow> s' = s\<lparr>embeddingGenerator := snd (generate (embeddingGenerator s) q)\<rparr>"
  by (auto simp: search_def split: prod.splits)

lemma embeddings_ok_generator:
  "embeddings_ok s \<Longrightarrow> embeddings_ok (s\<lparr>embeddingGenerator := g\<rparr>)"
  by (simp add: embeddings_ok_def stored_embeddings_def)

lemma embeddings_ok_search:
  assumes "embeddings_ok s" "search s q k = Inr (results, s')"
  shows "embeddings_ok s'"
proof -
  have "s' = s\<lparr>embeddingGenerator := snd (generate (embeddingGenerator s) q)\<rparr>"
    by (rule search_eq[OF assms(2)])
  moreover have "embeddings_ok (s\<lparr>embeddingGenerator := snd (generate (embeddingGenerator s) q)\<rparr>)"
    by (rule embeddings_ok_generator[OF assms(1)])
  ultimately show ?thesis by (rule ssubst)
qed

lemma embeddings_ok_getRelatedChunks:
  assumes "embeddings_ok s" "getRelatedChunks s i k = Inr (results, s')"
  shows "embeddings_ok s'"
proof (cases "map_of (chunks s) i")
  case None
  have "Inr (results, s') = (Inr ([], s) :: error + VectorSearchResult list \<times> MemoryVectorStore)"
    using assms(2) getRelatedChunks_absent[OF None, of k] by (rule trans[OF sym])
  then have "s' = s" by (rule_tac conjunct2) (simp only: sum.inject prod.inject)
  then show ?thesis using assms(1) by (rule ssubst)
next
  case (Some st)
  obtain rs t where r: "search s (createChunkText (chunk st)) (k + 1) = Inr (rs, t)"
    using search_resolves by blast
  have "Inr (results, s') =
        (Inr (take k (filter (\<lambda>r. chunk_id (res_chunk r) \<noteq> i) rs), t) :: error + VectorSearchResult list \<times> MemoryVectorStore)"
    using assms(2) getRelatedChunks_present[OF Some r] by (rule trans[OF sym])
  then have "s' = t" by (rule_tac conjunct2) (simp only: sum.inject prod.inject)
  then show ?thesis using embeddings_ok_search[OF assms(1) r] by (rule ssubst)
qed

lemma reachable_embeddings_ok: "reachable s \<Longrightarrow> embeddings_ok s"
proof (induction rule: reachable.induct)
  case construct_no_file
  show ?case by (rule embeddings_ok_new) (simp add: disk_embeddings_def)
next
  case construct_corrupt
  show ?case by (rule embeddings_ok_new) (simp add: disk_embeddings_def)
next
  case (construct_again s)
  then show ?case by (intro embeddings_ok_new) (simp add: embeddings_ok_def)
next
  case (after_initialize s projectName s')
  then show ?case by (simp add: initialize_def)
next
  case (after_addChunks s cs s')
  then show ?case using embeddings_ok_addChunks by blast
next
  case (after_search s query k results s')
  then show ?case using embeddings_ok_search by blast
next
  case (after_searchByCode s snippet k results s')
  then show ?case using embeddings_ok_search unfolding searchByCode_def by blast
next
  case (after_getRelatedChunks s chunkId k results s')
  then show ?case using embeddings_ok_getRelatedChunks by blast
next
  case (after_updateChunk s c s')
  then show ?case using embeddings_ok_updateChunk by blast
next
  case (after_deleteChunks s chunkIds s')
  then show ?case using embeddings_ok_deleteChunks by blast
next
  case (after_clearAll s s')
  then show ?case
    by (auto simp: clearAll_def embeddings_ok_def stored_embeddings_def disk_embeddings_def)
qed

text \<open>
  Claim C6.  Every vector returned by \<open>generate\<close> or \<open>generateBatch\<close> has exactly 384
  entries and is L2-normalized or all zero; and in every store the engine can reach
  (constructed on no file, on an unreadable file or on the snapshot an earlier store
  left, and changed by any sequence of store operations) every stored embedding is
  such a vector.
\<close>

theorem embeddings_valid:
  "valid_embedding (fst (generate g text)) \<and>
   (\<forall>e \<in> set (fst (generateBatch g texts)). valid_embedding e) \<and>
   (reachable s \<longrightarrow> (\<forall>e \<in> set (stored_embeddings s). valid_embedding e))"
  using valid_generate valid_generateBatch reachable_embeddings_ok
  by (auto simp: embeddings_ok_def)

lemma reachable_store_x: "reachable store_x"
  using after_updateChunk[OF construct_no_file updateChunk_store_x[unfolded empty_store_def]]
  by simp

lemma stored_embeddings_store_x:
  "stored_embeddings store_x = [fst (generate new_EmbeddingGenerator (createChunkText chunk_x))]"
  by (simp add: stored_embeddings_def chunks_store_x)

theorem embeddings_valid_witness:
  "reachable store_x \<and>
   stored_embeddings store_x = [fst (generate new_EmbeddingGenerator (createChunkText chunk_x))] \<and>
   valid_embedding (fst (generate new_EmbeddingGenerator (createChunkText chunk_x))) \<and>
   valid_embedding (hd (fst (generateBatch new_EmbeddingGenerator [createChunkText chunk_x])))"
proof -
  have "fst (generateBatch new_EmbeddingGenerator [createChunkText chunk_x]) \<noteq> []"
    by (simp add: generateBatch_def Let_def)
  then have "hd (fst (generateBatch new_EmbeddingGenerator [createChunkText chunk_x]))
        \<in> set (fst (generateBatch new_EmbeddingGenerator [createChunkText chunk_x]))"
    by (rule hd_in_set)
  with embeddings_valid[of new_EmbeddingGenerator "createChunkText chunk_x" "[createChunkText chunk_x]" store_x]
    reachable_store_x stored_embeddings_store_x
  show ?thesis by auto
qed

section \<open>Exact-match ranking\<close>

lemma map_of_computeIDF:
  "map_of (computeIDF vocab docs) t = Some v \<Longrightarrow>
   documentCount docs t > 0 \<and>
   v = ln (real (if length docs = 0 then 1 else length docs) / real (documentCount docs t))"
  unfolding computeIDF_def Let_def
  by (induction vocab) (auto simp: map_filter_simps split: if_splits)

lemma idf_zero:
  assumes "documentCount docs t = length docs \<or> documentCount docs t = 0"
  shows "(case map_of (computeIDF vocab docs) t of None \<Rightarrow> 0 | Some s \<Rightarrow> s) = 0"
proof (cases "map_of (computeIDF vocab docs) t")
  case None
  then show ?thesis by simp
next
  case (Some v)
  from map_of_computeIDF[OF Some] assms show ?thesis
    by (auto simp: Some split: if_splits)
qed

lemma tfidf_step_zero:
  assumes "(case map_of (idfScores g) (fst p) of None \<Rightarrow> 0 | Some s \<Rightarrow> s) = 0"
  shows "tfidf_step g p (replicate dimension 0) = replicate dimension 0"
proof -
  have 1: "i < dimension \<Longrightarrow> array_set (replicate dimension 0) i 0 = replicate dimension 0" for i
    by (simp add: array_set_def list_eq_iff_nth_eq nth_list_update)
  show ?thesis using assms
    by (cases p) (simp add: tfidf_step_def Let_def 1 hashedIndex_less split: option.splits)
qed

lemma fold_tfidf_zero:
  "\<forall>p \<in> set tf. (case map_of (idfScores g) (fst p) of None \<Rightarrow> 0 | Some s \<Rightarrow> s) = 0 \<Longrightarrow>
   fold (tfidf_step g) tf (replicate dimension 0) = replicate dimension 0"
  by (induction tf) (simp_all add: tfidf_step_zero)

lemma keys_count_fold:
  "fst ` set (fold (\<lambda>token tf. AList.update token (h tf token) tf) tokens m) \<subseteq> set tokens \<union> fst ` set m"
proof (induction tokens arbitrary: m)
  case Nil
  then show ?case by simp
next
  case (Cons t ts)
  have "fst ` set (fold (\<lambda>token tf. AList.update token (h tf token) tf) ts (AList.update t (h m t) m))
        \<subseteq> set ts \<union> fst ` set (AList.update t (h m t) m)"
    by (rule Cons.IH)
  then show ?case by (auto simp: dom_update)
qed

lemma computeTF_tokens: "fst ` set (computeTF tokens) \<subseteq> set tokens"
proof -
  let ?tf = "fold (\<lambda>token tf. AList.update token
                       ((case map_of tf token of None \<Rightarrow> 0 | Some c \<Rightarrow> c) + 1) tf)
                    tokens ([] :: (string \<times> nat) list)"
  have "fst ` set ?tf \<subseteq> set tokens \<union> fst ` set ([] :: (string \<times> nat) list)"
    by (rule keys_count_fold[where h = "\<lambda>tf token. (case map_of tf token of None \<Rightarrow> 0 | Some c \<Rightarrow> c) + 1"])
  moreover have "fst ` set (computeTF tokens) = fst ` set ?tf"
    by (force simp: computeTF_def Let_def case_prod_beta)
  ultimately show ?thesis by simp
qed

lemma fold_identity: "\<forall>p \<in> set ps. f p v = v \<Longrightarrow> fold f ps v = v"
  by (induction ps) simp_all

lemma addSemanticFeatures_none:
  assumes "list_all (\<lambda>(keywords, index). filter (\<lambda>kw. str_includes (toLowerCase text) kw) keywords = [])
             keyword_features"
    and "list_all (\<lambda>(matches, index). matches = None) (structureFeatures text)"
  shows "addSemanticFeatures text v = v"
proof -
  have 1: "fold (\<lambda>(keywords, index) v.
                    let count = length (filter (\<lambda>kw. str_includes (toLowerCase text) kw) keywords)
                    in if count > 0 \<and> index < dimension
                       then array_set v index (real count / real (length keywords)) else v)
                 keyword_features v = v"
    by (rule fold_identity) (use assms(1) in \<open>auto simp: list_all_iff\<close>)
  have 2: "fold (\<lambda>(matches, index) v.
                 case matches of
                   None \<Rightarrow> v
                 | Some n \<Rightarrow> if index < dimension then array_set v index (min (real n / 10) 1) else v)
              (structureFeatures text) v = v"
    by (rule fold_identity) (use assms(2) in \<open>auto simp: list_all_iff\<close>)
  show ?thesis unfolding addSemanticFeatures_def Let_def 1[unfolded Let_def] 2 ..
qed

lemma magnitude_zero: "magnitude_of (replicate n 0) = 0"
proof -
  have "(\<Sum>x\<leftarrow>replicate n (0::real). x * x) = 0"
    unfolding sum_squares_zero by simp
  then show ?thesis by (simp only: magnitude_of_def real_sqrt_zero)
qed

lemma textToVector_zero:
  assumes "\<forall>t \<in> set (tokenize text). (case map_of (idfScores g) t of None \<Rightarrow> 0 | Some s \<Rightarrow> s) = 0"
    and "list_all (\<lambda>(keywords, index). filter (\<lambda>kw. str_includes (toLowerCase text) kw) keywords = [])
             keyword_features"
    and "list_all (\<lambda>(matches, index). matches = None) (structureFeatures text)"
  shows "textToVector g text = replicate dimension 0"
proof -
  have "\<forall>p \<in> set (computeTF (tokenize text)).
          (case map_of (idfScores g) (fst p) of None \<Rightarrow> 0 | Some s \<Rightarrow> s) = 0"
    using assms(1) computeTF_tokens[of "tokenize text"] by blast
  then have "fold (tfidf_step g) (computeTF (tokenize text)) (replicate dimension 0) = replicate dimension 0"
    by (rule fold_tfidf_zero)
  then show ?thesis
    by (simp add: textToVector_def Let_def addSemanticFeatures_none[OF assms(2,3)] magnitude_zero)
qed

lemma sum_list_zero_all: "\<forall>v \<in> set vs. v = (0::real) \<Longrightarrow> sum_list vs = 0"
  by (induction vs) simp_all

lemma cosineSimilarity_zero_left: "cosineSimilarity (replicate n 0) b = 0"
proof -
  have "\<forall>p \<in> set (zip (replicate n (0::real)) b). fst p = 0"
    by (auto dest: set_zip_leftD)
  then have "\<forall>v \<in> set (map (\<lambda>(x, y). x * x) (zip (replicate n (0::real)) b)). v = 0"
    by (auto simp: case_prod_beta)
  then have "(\<Sum>(x, y)\<leftarrow>zip (replicate n (0::real)) b. x * x) = 0"
    by (rule sum_list_zero_all)
  then show ?thesis by (simp add: cosineSimilarity_def)
qed

lemma tokens_x_counts:
  "list_all (\<lambda>t. documentCount [createChunkText chunk_d, createChunkText chunk_x, createChunkText chunk_x] t = 3
               \<or> documentCount [createChunkText chunk_d, createChunkText chunk_x, createChunkText chunk_x] t = 0)
            (tokenize (createChunkText chunk_x))"
  by code_simp

lemma no_keywords_x:
  "list_all (\<lambda>(keywords, index). filter (\<lambda>kw. str_includes (toLowerCase (createChunkText chunk_x)) kw) keywords = [])
            keyword_features"
  by code_simp

lemma no_structure_x:
  "list_all (\<lambda>(matches, index). matches = None) (structureFeatures (createChunkText chunk_x))"
  by code_simp



lemma documents_store_dx:
  "documents (embeddingGenerator store_dx) = [createChunkText chunk_d, createChunkText chunk_x]"
  by (simp add: store_dx_def addChunks_eq saveToDisk_fields generator_empty_store generateBatch_def
      Let_def new_EmbeddingGenerator_def)

lemma query_embedding_zero:
  "fst (generate (embeddingGenerator store_dx) (createChunkText chunk_x)) = replicate dimension 0"
proof -
  let ?g = "snd (generate (embeddingGenerator store_dx) (createChunkText chunk_x))"
  let ?docs = "[createChunkText chunk_d, createChunkText chunk_x, createChunkText chunk_x]"
  have d: "documents ?g = ?docs" by (simp add: generate_fields documents_store_dx)
  have i: "idfScores ?g = computeIDF (vocabulary ?g) ?docs"
    using generate_fields(3)[of "embeddingGenerator store_dx" "createChunkText chunk_x"] d by simp
  have "\<forall>t \<in> set (tokenize (createChunkText chunk_x)).
          (case map_of (idfScores ?g) t of None \<Rightarrow> 0 | Some s \<Rightarrow> s) = 0"
  proof
    fix t assume t: "t \<in> set (tokenize (createChunkText chunk_x))"
    have "documentCount ?docs t = 3 \<or> documentCount ?docs t = 0"
      by (rule bspec[OF tokens_x_counts[unfolded list_all_iff] t])
    moreover have "length ?docs = 3" by simp
    ultimately have "documentCount ?docs t = length ?docs \<or> documentCount ?docs t = 0"
      by (simp only:)
    then show "(case map_of (idfScores ?g) t of None \<Rightarrow> 0 | Some s \<Rightarrow> s) = 0"
      unfolding i by (rule idf_zero)
  qed
  from textToVector_zero[OF this no_keywords_x no_structure_x]
  show ?thesis by (simp add: generate_def Let_def)
qed


lemma chunks_store_dx_entries:
  "\<exists>e1 e2. chunks store_dx =
      [(''d'', \<lparr>chunk = chunk_d, embedding = e1\<rparr>), (''c'', \<lparr>chunk = chunk_x, embedding = e2\<rparr>)]"
  by (simp add: store_dx_def addChunks_eq saveToDisk_fields chunks_empty_store generateBatch_def
      Let_def chunk_d_def chunk_x_def)

lemma getRelatedChunks_store_dx:
  "getRelatedChunks store_dx ''c'' 1 =
     Inr ([\<lparr>res_chunk = chunk_d, score = 1\<rparr>],
          store_dx\<lparr>embeddingGenerator :=
                     snd (generate (embeddingGenerator store_dx) (createChunkText chunk_x))\<rparr>)"
proof -
  obtain e1 e2 where c: "chunks store_dx =
      [(''d'', \<lparr>chunk = chunk_d, embedding = e1\<rparr>), (''c'', \<lparr>chunk = chunk_x, embedding = e2\<rparr>)]"
    using chunks_store_dx_entries by blast
  have m: "map_of (chunks store_dx) ''c'' = Some \<lparr>chunk = chunk_x, embedding = e2\<rparr>"
    by (simp add: c)
  have s: "search store_dx (createChunkText (chunk \<lparr>chunk = chunk_x, embedding = e2\<rparr>)) (1 + 1) =
     Inr ([\<lparr>res_chunk = chunk_d, score = 1\<rparr>, \<lparr>res_chunk = chunk_x, score = 1\<rparr>],
          store_dx\<lparr>embeddingGenerator :=
                     snd (generate (embeddingGenerator store_dx) (createChunkText chunk_x))\<rparr>)"
    using query_embedding_zero
    by (simp add: search_def case_prod_beta c cosineSimilarity_zero_left)
  have i: "chunk_id chunk_d = ''d''" "chunk_id chunk_x = ''c''"
    by (simp_all add: chunk_d_def chunk_x_def)
  show ?thesis unfolding getRelatedChunks_present[OF m s] by (simp add: i)
qed

text \<open>
  The related chunks of \<open>chunk_x\<close> in \<open>store_dx\<close>, and those of an id the store does
  not know.
\<close>

theorem getRelatedChunks_excludes_self_witness:
  "map_of (chunks store_dx) ''zz'' = None \<and>
   getRelatedChunks store_dx ''zz'' 5 = Inr ([], store_dx) \<and>
   getRelatedChunks store_dx ''c'' 1 =
     Inr ([\<lparr>res_chunk = chunk_d, score = 1\<rparr>],
          store_dx\<lparr>embeddingGenerator :=
                     snd (generate (embeddingGenerator store_dx) (createChunkText chunk_x))\<rparr>) \<and>
   chunk_id chunk_d \<noteq> ''c''"
proof -
  have h: "map_of (chunks store_dx) ''zz'' = None"
    using chunks_store_dx_entries by auto
  have "chunk_id chunk_d \<noteq> ''c''" by (simp add: chunk_d_def)
  with getRelatedChunks_excludes_self[of store_dx "''zz''" 5] h getRelatedChunks_store_dx
  show ?thesis by blast
qed

























end
